theory Spec2Isabelle
  imports
    Complex_Main
    "HOL-Library.Char_ord"
    "HOL-Library.List_Lexorder"
    "HOL-Library.Product_Lexorder"
    "HOL-Library.Multiset"
begin

text \<open>
  A model of the consolidation and identity-resolution pipeline of the Kiro usage
  tracker: the date token of a report file name, the catalogue of report files, the
  ingestion of one file, the consolidation with its deduplication and its order, the
  aggregation over regions, and the identity cache with its time to live and its
  fallback. Each function of the source is a function here, under its own name; what
  the source raises is a value of \<open>py_error\<close>; what it reads from outside (object store,
  directory, clock, child processes) is an argument.
\<close>

section \<open>Report consolidation (consolidate_kiro_reports_fixed.py)\<close>

subsection \<open>Values of the Python run time\<close>

text \<open>
  Exceptions are values. Only the exception classes that the modelled code can meet
  are listed; \<open>ClientError\<close> stands for any exception raised by a service client
  (object store, identity directory) or by the CSV reader, \<open>TimeoutExpired\<close> is what
  \<open>subprocess.run\<close> raises when the child process exceeds its timeout.
\<close>

datatype py_error =
  ValueError | KeyError | IndexError | TypeError | AttributeError | ClientError
  | TimeoutExpired

text \<open>
  A naive \<open>datetime\<close>: year, month, day, hour, minute, second, microsecond. Python
  compares two naive datetimes field by field in this order, which is the
  lexicographic order of the tuple.
\<close>

type_synonym datetime = "nat \<times> nat \<times> nat \<times> nat \<times> nat \<times> nat \<times> nat"

definition midnight :: "nat \<Rightarrow> nat \<Rightarrow> nat \<Rightarrow> datetime" where
  "midnight y m d = (y, m, d, 0, 0, 0, 0)"

subsection \<open>re.search(r'_(\d{12})_', filename)\<close>

definition is_digit :: "char \<Rightarrow> bool" where
  "is_digit c = (c \<in> set ''0123456789'')"

text \<open>
  The pattern anchored at the head of the string: an underscore, twelve digits, an
  underscore. The result is group 1, the twelve digits.
\<close>

definition match_here :: "string \<Rightarrow> string option" where
  "match_here s =
     (case s of
        [] \<Rightarrow> None
      | c # rest \<Rightarrow>
          if c = CHR ''_'' \<and> 13 \<le> length rest \<and> list_all is_digit (take 12 rest)
             \<and> rest ! 12 = CHR ''_''
          then Some (take 12 rest) else None)"

text \<open>\<open>re.search\<close> tries the start positions from left to right and returns the first match.\<close>

fun re_search :: "string \<Rightarrow> string option" where
  "re_search [] = None"
| "re_search (c # cs) =
     (case match_here (c # cs) of Some tok \<Rightarrow> Some tok | None \<Rightarrow> re_search cs)"

subsection \<open>datetime.strptime(date_str, '%Y%m%d') on eight digits\<close>

definition digit_val :: "char \<Rightarrow> nat" where
  "digit_val c = of_char c - 48"

fun digits_val :: "string \<Rightarrow> nat" where
  "digits_val cs = foldl (\<lambda>acc c. 10 * acc + digit_val c) 0 cs"

definition is_leap :: "nat \<Rightarrow> bool" where
  "is_leap y = (y mod 4 = 0 \<and> (y mod 100 \<noteq> 0 \<or> y mod 400 = 0))"

definition days_in_month :: "nat \<Rightarrow> nat \<Rightarrow> nat" where
  "days_in_month y m =
     (if m = 2 then (if is_leap y then 29 else 28)
      else if m \<in> {4, 6, 9, 11} then 30 else 31)"

text \<open>
  On exactly eight digits the directives \<open>%Y\<close>, \<open>%m\<close>, \<open>%d\<close> consume four, two and two
  digits or the parse fails: a month or a day read from a single digit leaves
  unconverted data behind, which is a \<open>ValueError\<close> as well. The year must lie in
  1..9999, the month in 1..12, the day in the month.
\<close>

definition strptime_ymd :: "string \<Rightarrow> py_error + datetime" where
  "strptime_ymd s =
     (let y = digits_val (take 4 s);
          m = digits_val (take 2 (drop 4 s));
          d = digits_val (take 2 (drop 6 s))
      in if length s = 8 \<and> list_all is_digit s
            \<and> 1 \<le> y \<and> 1 \<le> m \<and> m \<le> 12 \<and> 1 \<le> d \<and> d \<le> days_in_month y m
         then Inr (midnight y m d) else Inl ValueError)"

subsection \<open>extract_date_from_filename\<close>

definition extract_date_from_filename :: "string \<Rightarrow> py_error + datetime" where
  "extract_date_from_filename filename =
     (case re_search filename of
        Some tok \<Rightarrow> strptime_ymd (take 8 tok)
      | None \<Rightarrow> Inl ValueError)"

subsection \<open>The date string of merge_csv.py\<close>

text \<open>\<open>s.split(sep)\<close> for a separator of one character.\<close>

fun split_char :: "char \<Rightarrow> string \<Rightarrow> string list" where
  "split_char sep [] = [[]]"
| "split_char sep (c # cs) =
     (if c = sep then [] # split_char sep cs
      else (case split_char sep cs of
              [] \<Rightarrow> [[c]]
            | part # parts \<Rightarrow> (c # part) # parts))"

text \<open>
  \<open>date_str = filename.split('_')[-2][:8]\<close>, as \<open>merge_csv.py\<close> and the offline
  tracker read the date: the first eight characters of the second-to-last part of the
  file name, the part that the comment in \<open>extract_date_from_filename\<close> names too.
\<close>

definition date_str :: "string \<Rightarrow> py_error + string" where
  "date_str filename =
     (let parts = split_char CHR ''_'' filename
      in if length parts < 2 then Inl IndexError
         else Inr (take 8 (parts ! (length parts - 2))))"

subsection \<open>file_date.strftime('%Y-%m-%d')\<close>

definition digit_char :: "nat \<Rightarrow> char" where
  "digit_char n = ''0123456789'' ! (n mod 10)"

definition pad2 :: "nat \<Rightarrow> string" where
  "pad2 n = [digit_char (n div 10), digit_char n]"

definition pad4 :: "nat \<Rightarrow> string" where
  "pad4 n = [digit_char (n div 1000), digit_char (n div 100), digit_char (n div 10), digit_char n]"

definition strftime_ymd :: "datetime \<Rightarrow> string" where
  "strftime_ymd dt = (case dt of (y, m, d, _) \<Rightarrow> pad4 y @ ''-'' @ pad2 m @ ''-'' @ pad2 d)"

subsection \<open>The object store and the CSV reader\<close>

record s3_object =
  Key :: string
  Size :: nat
  LastModified :: datetime

text \<open>
  One row of a report. \<open>UserId\<close> and \<open>Date\<close> are the two columns the consolidation
  reads, both required by the report schema and both strings; \<open>ReportDate\<close> is the
  column it writes; the counters of the report are carried along in \<open>metrics\<close>. A
  data frame is the list of its rows, and it is \<open>empty\<close> when the list is. Strings are
  compared as Python compares them, character by character.
\<close>

record row =
  UserId :: string
  Date :: string
  ReportDate :: string
  metrics :: "(string \<times> string) list"

type_synonym dataframe = "row list"

text \<open>
  The collaborators of \<open>KiroReportConsolidator\<close>: the answer of the one call
  \<open>s3.list_objects_v2(Bucket, Prefix)\<close> (its \<open>Contents\<close>, the empty list when the key
  is absent, or the exception the call raises), \<open>s3.get_object(Bucket, Key)['Body'].read()\<close>
  and \<open>pd.read_csv\<close>.
\<close>

record s3_env =
  list_objects_v2 :: "py_error + s3_object list"
  get_object :: "string \<Rightarrow> py_error + string"
  read_csv :: "string \<Rightarrow> py_error + dataframe"

record csv_file =
  key :: string
  date :: datetime
  size_obj :: nat
  last_modified :: datetime

subsection \<open>list_csv_files\<close>

definition endswith :: "string \<Rightarrow> string \<Rightarrow> bool" where
  "endswith s suffix = (length suffix \<le> length s \<and> drop (length s - length suffix) s = suffix)"

text \<open>\<open>key.split('/')[-1]\<close>: the part of the key after its last slash.\<close>

definition basename :: "string \<Rightarrow> string" where
  "basename k = rev (takeWhile (\<lambda>c. c \<noteq> CHR ''/'') (rev k))"

text \<open>
  The loop over \<open>Contents\<close>. A key that does not end in \<open>.csv\<close> is passed over; a
  \<open>ValueError\<close> of the date extraction and a date outside the bounds both
  \<open>continue\<close>.
\<close>

fun scan_contents :: "datetime option \<Rightarrow> datetime option \<Rightarrow> s3_object list \<Rightarrow> csv_file list" where
  "scan_contents start_date end_date [] = []"
| "scan_contents start_date end_date (obj # objs) =
     (if endswith (Key obj) ''.csv'' then
        (case extract_date_from_filename (basename (Key obj)) of
           Inl e \<Rightarrow> scan_contents start_date end_date objs
         | Inr file_date \<Rightarrow>
             if (case start_date of None \<Rightarrow> False | Some s \<Rightarrow> file_date < s)
               then scan_contents start_date end_date objs
             else if (case end_date of None \<Rightarrow> False | Some e \<Rightarrow> file_date > e)
               then scan_contents start_date end_date objs
             else \<lparr>key = Key obj, date = file_date, size_obj = Size obj,
                   last_modified = LastModified obj\<rparr>
                  # scan_contents start_date end_date objs)
      else scan_contents start_date end_date objs)"

text \<open>\<open>sorted(csv_files, key=lambda x: x['date'])\<close> is a stable sort, as \<open>sort_key\<close> is.\<close>

definition list_csv_files :: "s3_env \<Rightarrow> datetime option \<Rightarrow> datetime option \<Rightarrow> csv_file list" where
  "list_csv_files env start_date end_date =
     (case list_objects_v2 env of
        Inl e \<Rightarrow> []
      | Inr contents \<Rightarrow> sort_key date (scan_contents start_date end_date contents))"

subsection \<open>download_and_parse_csv\<close>

definition download_and_parse_csv :: "s3_env \<Rightarrow> string \<Rightarrow> dataframe" where
  "download_and_parse_csv env k =
     (case get_object env k of
        Inl e \<Rightarrow> []
      | Inr content \<Rightarrow>
          (case read_csv env content of
             Inl e \<Rightarrow> []
           | Inr df \<Rightarrow>
               (case extract_date_from_filename (basename k) of
                  Inl e \<Rightarrow> []
                | Inr file_date \<Rightarrow> map (\<lambda>r. r\<lparr>ReportDate := strftime_ymd file_date\<rparr>) df)))"

subsection \<open>consolidate_reports\<close>

definition dedup_key :: "row \<Rightarrow> string \<times> string" where
  "dedup_key r = (UserId r, Date r)"

text \<open>
  \<open>drop_duplicates(subset=['UserId', 'Date'], keep='last')\<close>: a row stays when no later
  row has its key; the rows that stay keep their order.
\<close>

fun drop_duplicates_last :: "dataframe \<Rightarrow> dataframe" where
  "drop_duplicates_last [] = []"
| "drop_duplicates_last (r # rs) =
     (if dedup_key r \<in> set (map dedup_key rs) then drop_duplicates_last rs
      else r # drop_duplicates_last rs)"

definition sort_col :: "row \<Rightarrow> string \<times> string" where
  "sort_col r = (ReportDate r, UserId r)"

text \<open>\<open>sort_values(['ReportDate', 'UserId'])\<close>: ascending, by the pair of the two columns.\<close>

definition sort_values :: "dataframe \<Rightarrow> dataframe" where
  "sort_values df = sort_key sort_col df"

text \<open>
  The second half of \<open>consolidate_reports\<close>, from the list of downloaded frames on:
  the empty frames are left out, the others are concatenated in order, deduplicated
  and sorted.
\<close>

definition consolidate :: "dataframe list \<Rightarrow> dataframe" where
  "consolidate dfs =
     (let all_dataframes = filter (\<lambda>df. df \<noteq> []) dfs
      in if all_dataframes = [] then []
         else sort_values (drop_duplicates_last (concat all_dataframes)))"

definition consolidate_reports :: "s3_env \<Rightarrow> datetime option \<Rightarrow> datetime option \<Rightarrow> dataframe" where
  "consolidate_reports env start_date end_date =
     (let csv_files = list_csv_files env start_date end_date
      in if csv_files = [] then []
         else consolidate (map (\<lambda>file_info. download_and_parse_csv env (key file_info)) csv_files))"

section \<open>Identity cache (iam_identity_center_mapper.py)\<close>

subsection \<open>Records of the cache\<close>

text \<open>
  A user record is a dictionary from field names to values; the cache file is JSON, so
  a value read back from it may be a string, a number, or something else
  (\<open>JNull\<close>). An entry of the cache is such a dictionary, or a JSON value that is not
  an object (\<open>JOther\<close>). \<open>time.time()\<close> is a real number of seconds.
\<close>

datatype jval = JStr string | JNum real | JNull

type_synonym user_info = "string \<rightharpoonup> jval"

datatype cache_entry = JDict user_info | JOther

subsection \<open>Answers of the identity directory\<close>

record name_attr =
  GivenName :: "string option"
  FamilyName :: "string option"

record email_attr =
  Value :: "string option"

text \<open>
  A user as \<open>describe_user\<close> and \<open>list_users\<close> return it. \<open>DirUserId\<close> is the
  attribute \<open>UserId\<close> of the directory.
\<close>

record directory_user =
  DirUserId :: string
  UserName :: "string option"
  DisplayName :: "string option"
  Name :: "name_attr option"
  Emails :: "email_attr list option"

record page =
  Users :: "directory_user list"
  NextToken :: "string option"

subsection \<open>The mapper and its surroundings\<close>

text \<open>
  The fields of \<open>IAMIdentityCenterMapper\<close> that the lookups read and write.
  \<open>identity_store_client\<close> says whether the field holds a client (it is \<open>None\<close>
  otherwise). \<open>directory_calls\<close> is not a field of the source: it counts the calls of
  \<open>describe_user\<close> and \<open>list_users\<close> made so far. \<open>save_cache\<close> writes
  \<open>user_cache\<close> to the cache file, catches its own exceptions, and changes none of
  these fields.
\<close>

record mapper =
  identity_store_client :: bool
  identity_store_id :: "string option"
  user_cache :: "string \<rightharpoonup> cache_entry"
  directory_calls :: nat

text \<open>
  What one call of \<open>get_user_info\<close> meets outside: the clock when the age of the
  cached entry is tested, the clock when a record is built, and the answer of
  \<open>describe_user(IdentityStoreId, UserId)\<close>, an exception for a user that does not
  exist.
\<close>

record world =
  time_check :: real
  time_stamp :: real
  describe_user :: "string \<Rightarrow> string \<Rightarrow> py_error + directory_user"

text \<open>
  \<open>self.identity_store_client and self.identity_store_id\<close>: a client, and a store id
  that is neither \<open>None\<close> nor the empty string.
\<close>

definition store_of :: "mapper \<Rightarrow> string option" where
  "store_of m =
     (if identity_store_client m then
        (case identity_store_id m of
           None \<Rightarrow> None
         | Some sid \<Rightarrow> if sid = [] then None else Some sid)
      else None)"

subsection \<open>get_user_info\<close>

datatype cache_check = Hit user_info | Miss | Raised py_error

text \<open>
  \<open>if user_id in self.user_cache: ... if time.time() - cached_info.get("cached_at", 0) < 86400\<close>.
  An entry that is not a dictionary has no \<open>get\<close>; a \<open>cached_at\<close> that is not a number
  cannot be subtracted.
\<close>

definition check_cache :: "real \<Rightarrow> (string \<rightharpoonup> cache_entry) \<Rightarrow> string \<Rightarrow> cache_check" where
  "check_cache now cache user_id =
     (case cache user_id of
        None \<Rightarrow> Miss
      | Some JOther \<Rightarrow> Raised AttributeError
      | Some (JDict cached_info) \<Rightarrow>
          (case cached_info ''cached_at'' of
             None \<Rightarrow> if now - 0 < 86400 then Hit cached_info else Miss
           | Some (JNum t) \<Rightarrow> if now - t < 86400 then Hit cached_info else Miss
           | Some (JStr s) \<Rightarrow> Raised TypeError
           | Some JNull \<Rightarrow> Raised TypeError))"

text \<open>\<open>d.get(k, "")\<close> on an attribute that may be absent.\<close>

definition get_str :: "string option \<Rightarrow> string" where
  "get_str v = (case v of None \<Rightarrow> [] | Some s \<Rightarrow> s)"

definition first_email :: "email_attr list option \<Rightarrow> string" where
  "first_email emails =
     (case emails of None \<Rightarrow> [] | Some [] \<Rightarrow> [] | Some (e # es) \<Rightarrow> get_str (Value e))"

definition name_part :: "(name_attr \<Rightarrow> string option) \<Rightarrow> name_attr option \<Rightarrow> string" where
  "name_part part n = (case n of None \<Rightarrow> [] | Some attrs \<Rightarrow> get_str (part attrs))"

text \<open>The record built from an answer of the directory.\<close>

definition directory_record :: "string \<Rightarrow> directory_user \<Rightarrow> real \<Rightarrow> user_info" where
  "directory_record user_id response now =
     [''user_id'' \<mapsto> JStr user_id,
      ''username'' \<mapsto> JStr (get_str (UserName response)),
      ''display_name'' \<mapsto> JStr (get_str (DisplayName response)),
      ''email'' \<mapsto> JStr (first_email (Emails response)),
      ''first_name'' \<mapsto> JStr (name_part GivenName (Name response)),
      ''last_name'' \<mapsto> JStr (name_part FamilyName (Name response)),
      ''cached_at'' \<mapsto> JNum now,
      ''source'' \<mapsto> JStr ''iam_identity_center'']"

text \<open>The default record, with \<open>f"User-{user_id[:8]}"\<close> as the two names.\<close>

definition fallback_record :: "string \<Rightarrow> real \<Rightarrow> user_info" where
  "fallback_record user_id now =
     [''user_id'' \<mapsto> JStr user_id,
      ''username'' \<mapsto> JStr (''User-'' @ take 8 user_id),
      ''display_name'' \<mapsto> JStr (''User-'' @ take 8 user_id),
      ''email'' \<mapsto> JStr [],
      ''first_name'' \<mapsto> JStr [],
      ''last_name'' \<mapsto> JStr [],
      ''cached_at'' \<mapsto> JNum now,
      ''source'' \<mapsto> JStr ''fallback'']"

text \<open>
  The result is the exception that leaves the function or the record it returns,
  together with the mapper after the call.
\<close>

definition get_user_info :: "world \<Rightarrow> mapper \<Rightarrow> string \<Rightarrow> (py_error + user_info) \<times> mapper" where
  "get_user_info w m user_id =
     (case check_cache (time_check w) (user_cache m) user_id of
        Raised e \<Rightarrow> (Inl e, m)
      | Hit cached_info \<Rightarrow> (Inr cached_info, m)
      | Miss \<Rightarrow>
          (case store_of m of
             None \<Rightarrow> (Inr (fallback_record user_id (time_stamp w)), m)
           | Some sid \<Rightarrow>
               (case describe_user w sid user_id of
                  Inr response \<Rightarrow>
                    (Inr (directory_record user_id response (time_stamp w)),
                     m\<lparr>user_cache :=
                         (user_cache m)(user_id \<mapsto>
                            JDict (directory_record user_id response (time_stamp w))),
                       directory_calls := directory_calls m + 1\<rparr>)
                | Inl e \<Rightarrow>
                    (Inr (fallback_record user_id (time_stamp w)),
                     m\<lparr>directory_calls := directory_calls m + 1\<rparr>))))"

subsection \<open>bulk_get_users\<close>

text \<open>
  The loop over \<open>user_ids\<close>; the \<open>i\<close>-th call of \<open>get_user_info\<close> meets the world
  \<open>ws i\<close>. An exception of a call ends the loop and leaves the function.
\<close>

fun bulk_loop ::
  "(nat \<Rightarrow> world) \<Rightarrow> nat \<Rightarrow> mapper \<Rightarrow> string list \<Rightarrow> (string \<rightharpoonup> user_info)
   \<Rightarrow> (py_error + (string \<rightharpoonup> user_info)) \<times> mapper" where
  "bulk_loop ws i m [] results = (Inr results, m)"
| "bulk_loop ws i m (user_id # rest) results =
     (case get_user_info (ws i) m user_id of
        (Inl e, m') \<Rightarrow> (Inl e, m')
      | (Inr info, m') \<Rightarrow> bulk_loop ws (Suc i) m' rest (results(user_id \<mapsto> info)))"

definition bulk_get_users ::
  "(nat \<Rightarrow> world) \<Rightarrow> mapper \<Rightarrow> string list \<Rightarrow> (py_error + (string \<rightharpoonup> user_info)) \<times> mapper" where
  "bulk_get_users ws m user_ids = bulk_loop ws 0 m user_ids Map.empty"

subsection \<open>search_user_by_username\<close>

text \<open>
  \<open>list_users\<close> with the filter on \<open>UserName\<close>, then \<open>get_user_info\<close> on the first user
  found. Every exception inside the \<open>try\<close> gives \<open>None\<close>.
\<close>

record search_world =
  list_users_by_name :: "string \<Rightarrow> string \<Rightarrow> py_error + directory_user list"
  lookup_world :: world

definition search_user_by_username ::
  "search_world \<Rightarrow> mapper \<Rightarrow> string \<Rightarrow> user_info option \<times> mapper" where
  "search_user_by_username sw m username =
     (case store_of m of
        None \<Rightarrow> (None, m)
      | Some sid \<Rightarrow>
          (case list_users_by_name sw sid username of
             Inl e \<Rightarrow> (None, m\<lparr>directory_calls := directory_calls m + 1\<rparr>)
           | Inr [] \<Rightarrow> (None, m\<lparr>directory_calls := directory_calls m + 1\<rparr>)
           | Inr (user # others) \<Rightarrow>
               (case get_user_info (lookup_world sw)
                       (m\<lparr>directory_calls := directory_calls m + 1\<rparr>) (DirUserId user) of
                  (Inl e, m') \<Rightarrow> (None, m')
                | (Inr info, m') \<Rightarrow> (Some info, m'))))"

subsection \<open>list_all_users\<close>

text \<open>
  The pages of \<open>list_users(IdentityStoreId, NextToken)\<close>, and the clock read for the
  \<open>n\<close>-th user of the listing.
\<close>

record listing =
  list_users :: "string \<Rightarrow> string option \<Rightarrow> py_error + page"
  time_at :: "nat \<Rightarrow> real"

text \<open>The inner loop: every user of a page is appended to \<open>users\<close> and stored in the cache.\<close>

fun store_users ::
  "(nat \<Rightarrow> real) \<Rightarrow> directory_user list \<Rightarrow> user_info list \<Rightarrow> (string \<rightharpoonup> cache_entry)
   \<Rightarrow> user_info list \<times> (string \<rightharpoonup> cache_entry)" where
  "store_users clock [] users cache = (users, cache)"
| "store_users clock (user # rest) users cache =
     store_users clock rest
       (users @ [directory_record (DirUserId user) user (clock (length users))])
       (cache(DirUserId user \<mapsto>
          JDict (directory_record (DirUserId user) user (clock (length users)))))"

text \<open>
  The \<open>while True\<close> loop. It ends when a page carries no token (or an empty one) or
  when \<open>list_users\<close> raises; a directory that hands out tokens for ever keeps it
  running, and the value is \<open>None\<close> then. What the cache received before an exception
  stays in it.
\<close>

partial_function (option) list_users_loop ::
  "listing \<Rightarrow> string \<Rightarrow> string option \<Rightarrow> user_info list \<Rightarrow> mapper
   \<Rightarrow> (py_error option \<times> user_info list \<times> mapper) option" where
  "list_users_loop l sid next_token users m =
     (case list_users l sid next_token of
        Inl e \<Rightarrow> Some (Some e, users, m\<lparr>directory_calls := directory_calls m + 1\<rparr>)
      | Inr response \<Rightarrow>
          (case NextToken response of
             None \<Rightarrow>
               Some (None, fst (store_users (time_at l) (Users response) users (user_cache m)),
                     m\<lparr>user_cache := snd (store_users (time_at l) (Users response) users (user_cache m)),
                       directory_calls := directory_calls m + 1\<rparr>)
           | Some tok \<Rightarrow>
               if tok = [] then
                 Some (None, fst (store_users (time_at l) (Users response) users (user_cache m)),
                       m\<lparr>user_cache := snd (store_users (time_at l) (Users response) users (user_cache m)),
                         directory_calls := directory_calls m + 1\<rparr>)
               else
                 list_users_loop l sid (Some tok)
                   (fst (store_users (time_at l) (Users response) users (user_cache m)))
                   (m\<lparr>user_cache := snd (store_users (time_at l) (Users response) users (user_cache m)),
                      directory_calls := directory_calls m + 1\<rparr>)))"

definition list_all_users :: "listing \<Rightarrow> mapper \<Rightarrow> (user_info list \<times> mapper) option" where
  "list_all_users l m =
     (case store_of m of
        None \<Rightarrow> Some ([], m)
      | Some sid \<Rightarrow>
          (case list_users_loop l sid None [] m of
             None \<Rightarrow> None
           | Some (Some e, users, m') \<Rightarrow> Some ([], m')
           | Some (None, users, m') \<Rightarrow> Some (users, m')))"


section \<open>Region aggregation (kiro_tracker_with_iam.py)\<close>

definition SUPPORTED_REGIONS :: "(string \<times> string) list" where
  "SUPPORTED_REGIONS =
     [(''us-east-1'', ''US East (N. Virginia)''),
      (''us-west-2'', ''US West (Oregon)''),
      (''eu-central-1'', ''Europe (Frankfurt)''),
      (''ap-northeast-1'', ''Asia Pacific (Tokyo)''),
      (''ap-northeast-2'', ''Asia Pacific (Seoul)''),
      (''ap-southeast-1'', ''Asia Pacific (Singapore)''),
      (''ap-southeast-2'', ''Asia Pacific (Sydney)'')]"

text \<open>A row of the multi-region artifact: the row of the report and the two columns added.\<close>

record region_row = row +
  Region :: string
  RegionName :: string

text \<open>
  What \<open>consolidate_region_data\<close> finds after \<open>subprocess.run\<close> for one region:
  the call raised (\<open>TimeoutExpired\<close> after 300 seconds, for one), or the child process
  ended with a return code and left the file \<open>data/temp_{region}.csv\<close> missing,
  unreadable for \<open>pd.read_csv\<close>, or readable.
\<close>

datatype temp_file = Missing | Unreadable py_error | Readable dataframe

datatype run_result = RunRaised py_error | Completed int temp_file

record region_env =
  run_region :: "string \<Rightarrow> run_result"
  to_csv :: "region_row list \<Rightarrow> py_error option"

text \<open>
  The messages shown on the dashboard: \<open>st.write\<close>, \<open>st.success\<close> and \<open>st.warning\<close>
  for a region, by its label; the error for no data in any region; the error of the
  \<open>except\<close> clause; the final success with the number of rows.
\<close>

datatype st_message =
  Write string | Success string | Warning string
  | ErrorAllRegions | ErrorException py_error | SuccessTotal nat

definition tag_rows :: "string \<Rightarrow> string \<Rightarrow> dataframe \<Rightarrow> region_row list" where
  "tag_rows region name df =
     map (\<lambda>r. \<lparr>UserId = UserId r, Date = Date r, ReportDate = ReportDate r,
                metrics = metrics r, Region = region, RegionName = name\<rparr>) df"

text \<open>
  The loop over \<open>regions\<close>. \<open>SUPPORTED_REGIONS[region]\<close> raises \<open>KeyError\<close> for a region
  that is not in the table. A return code other than 0 is a warning and the loop goes
  on; an exception leaves the loop.
\<close>

fun region_loop ::
  "region_env \<Rightarrow> string list \<Rightarrow> region_row list list \<Rightarrow> st_message list
   \<Rightarrow> (py_error + region_row list list) \<times> st_message list" where
  "region_loop env [] all_dataframes msgs = (Inr all_dataframes, msgs)"
| "region_loop env (region # rest) all_dataframes msgs =
     (case map_of SUPPORTED_REGIONS region of
        None \<Rightarrow> (Inl KeyError, msgs)
      | Some name \<Rightarrow>
          (case run_region env region of
             RunRaised e \<Rightarrow> (Inl e, msgs @ [Write name])
           | Completed returncode file \<Rightarrow>
               if returncode = 0 then
                 (case file of
                    Missing \<Rightarrow>
                      region_loop env rest all_dataframes (msgs @ [Write name, Success name])
                  | Unreadable e \<Rightarrow> (Inl e, msgs @ [Write name])
                  | Readable df \<Rightarrow>
                      if df \<noteq> [] then
                        region_loop env rest (all_dataframes @ [tag_rows region name df])
                          (msgs @ [Write name, Success name])
                      else
                        region_loop env rest all_dataframes (msgs @ [Write name, Success name]))
               else region_loop env rest all_dataframes (msgs @ [Write name, Warning name])))"

text \<open>
  The value returned, the messages shown, and the rows written to
  \<open>consolidated_multiregion_{timestamp}.csv\<close>, if the file was written.
\<close>

record aggregation =
  returned :: bool
  shown :: "st_message list"
  written :: "region_row list option"

definition consolidate_region_data :: "region_env \<Rightarrow> string list \<Rightarrow> aggregation" where
  "consolidate_region_data env regions =
     (case region_loop env regions [] [] of
        (Inl e, msgs) \<Rightarrow>
          \<lparr>returned = False, shown = msgs @ [ErrorException e], written = None\<rparr>
      | (Inr all_dataframes, msgs) \<Rightarrow>
          if all_dataframes = [] then
            \<lparr>returned = False, shown = msgs @ [ErrorAllRegions], written = None\<rparr>
          else
            (case to_csv env (concat all_dataframes) of
               Some e \<Rightarrow>
                 \<lparr>returned = False, shown = msgs @ [ErrorException e], written = None\<rparr>
             | None \<Rightarrow>
                 \<lparr>returned = True,
                  shown = msgs @ [SuccessTotal (length (concat all_dataframes))],
                  written = Some (concat all_dataframes)\<rparr>))"


section \<open>Notions of the specification\<close>

text \<open>
  The specification's \<^emph>\<open>12-digit numeric token delimited by underscores\<close>: \<open>tok\<close> is
  such a token of \<open>filename\<close>, its opening underscore at index \<open>i\<close>.
\<close>

definition token_at :: "string \<Rightarrow> nat \<Rightarrow> string \<Rightarrow> bool" where
  "token_at filename i tok =
     (i + 14 \<le> length filename \<and> filename ! i = CHR ''_''
      \<and> tok = take 12 (drop (Suc i) filename) \<and> list_all is_digit tok
      \<and> filename ! (i + 13) = CHR ''_'')"


text \<open>
  The rows of the specification's scenario: file \<open>A\<close> and file \<open>B\<close> both report user
  \<open>U1\<close> on 2025-10-20, with 5 and with 9 chat messages.
\<close>

definition scenario_A :: row where
  "scenario_A = \<lparr>UserId = ''U1'', Date = ''2025-10-20'', ReportDate = ''2025-10-20'',
                  metrics = [(''Chat_MessagesSent'', ''5'')]\<rparr>"

definition scenario_B :: row where
  "scenario_B = \<lparr>UserId = ''U1'', Date = ''2025-10-20'', ReportDate = ''2025-10-21'',
                  metrics = [(''Chat_MessagesSent'', ''9'')]\<rparr>"

text \<open>
  The fields of an identity record, and a well-formed record of the cache: all fields
  present, \<open>cached_at\<close> a number, \<open>source\<close> one of the two values the mapper writes.
  A well-formed cache holds well-formed records only.
\<close>

definition record_keys :: "string list" where
  "record_keys = [''user_id'', ''username'', ''display_name'', ''email'', ''first_name'',
                   ''last_name'', ''cached_at'', ''source'']"

definition well_formed_record :: "user_info \<Rightarrow> bool" where
  "well_formed_record info =
     (list_all (\<lambda>k. info k \<noteq> None) record_keys
      \<and> (case info ''cached_at'' of Some (JNum t) \<Rightarrow> True | _ \<Rightarrow> False)
      \<and> (info ''source'' = Some (JStr ''iam_identity_center'')
         \<or> info ''source'' = Some (JStr ''fallback'')))"

definition well_formed_cache :: "(string \<rightharpoonup> cache_entry) \<Rightarrow> bool" where
  "well_formed_cache cache =
     (\<forall>user_id. case cache user_id of
                  None \<Rightarrow> True
                | Some JOther \<Rightarrow> False
                | Some (JDict info) \<Rightarrow> well_formed_record info)"

text \<open>
  A mapper with an empty cache, a user of the directory, a directory that knows this
  user, a directory that is down, and a listing of one page.
\<close>

definition sample_mapper :: mapper where
  "sample_mapper = \<lparr>identity_store_client = True, identity_store_id = Some ''d-9067f33d3d'',
                     user_cache = Map.empty, directory_calls = 0\<rparr>"

definition sample_user :: directory_user where
  "sample_user = \<lparr>DirUserId = ''1458e458-7041'', UserName = Some ''bedrock_user1'',
                   DisplayName = Some ''Bedrock User'', Name = None,
                   Emails = Some [\<lparr>Value = Some ''user1@example.com''\<rparr>]\<rparr>"

definition world_up :: "real \<Rightarrow> world" where
  "world_up now = \<lparr>time_check = now, time_stamp = now,
                    describe_user = (\<lambda>sid user_id.
                      if user_id = ''1458e458-7041'' then Inr sample_user else Inl ClientError)\<rparr>"

definition world_down :: "real \<Rightarrow> world" where
  "world_down now = \<lparr>time_check = now, time_stamp = now,
                      describe_user = (\<lambda>sid user_id. Inl ClientError)\<rparr>"

definition sample_listing :: listing where
  "sample_listing = \<lparr>list_users = (\<lambda>sid tok. Inr \<lparr>Users = [sample_user], NextToken = None\<rparr>),
                      time_at = (\<lambda>n. 5000)\<rparr>"

text \<open>
  A region yields data when its run ends with return code 0 and leaves a readable file
  with at least one row. A region is quiet when nothing raises for it: it is in the
  table, the call of the child process returns, and the file, if it is read, is
  readable. \<open>region_frame\<close> is the tagged frame of a region.
\<close>

definition yields_data :: "region_env \<Rightarrow> string \<Rightarrow> bool" where
  "yields_data env region =
     (case run_region env region of
        Completed returncode (Readable df) \<Rightarrow> returncode = 0 \<and> df \<noteq> []
      | _ \<Rightarrow> False)"

definition quiet :: "region_env \<Rightarrow> string \<Rightarrow> bool" where
  "quiet env region =
     (map_of SUPPORTED_REGIONS region \<noteq> None
      \<and> (case run_region env region of
            RunRaised e \<Rightarrow> False
          | Completed returncode (Unreadable e) \<Rightarrow> returncode \<noteq> 0
          | _ \<Rightarrow> True))"

definition region_frame :: "region_env \<Rightarrow> string \<Rightarrow> region_row list" where
  "region_frame env region =
     (case (map_of SUPPORTED_REGIONS region, run_region env region) of
        (Some name, Completed returncode (Readable df)) \<Rightarrow> tag_rows region name df
      | _ \<Rightarrow> [])"

definition region_frames :: "region_env \<Rightarrow> string list \<Rightarrow> region_row list list" where
  "region_frames env regions = map (region_frame env) (filter (yields_data env) regions)"

text \<open>
  Two surroundings of the aggregation: \<open>us-east-1\<close> yields the row of file \<open>A\<close> in
  both. In the first, any other region has no data: its child process ends with return
  code 0 and leaves no file. In the second, the run for any other region runs into the
  timeout.
\<close>

definition env_partial :: region_env where
  "env_partial = \<lparr>run_region = (\<lambda>region. if region = ''us-east-1''
                                   then Completed 0 (Readable [scenario_A])
                                   else Completed 0 Missing),
                   to_csv = (\<lambda>rows. None)\<rparr>"

definition env_timeout :: region_env where
  "env_timeout = \<lparr>run_region = (\<lambda>region. if region = ''us-east-1''
                                   then Completed 0 (Readable [scenario_A])
                                   else RunRaised TimeoutExpired),
                   to_csv = (\<lambda>rows. None)\<rparr>"


section \<open>Properties of the consolidation\<close>

subsection \<open>Deduplication and order\<close>

lemma drop_duplicates_last_subset: "set (drop_duplicates_last rs) \<subseteq> set rs"
  by (induction rs) auto

lemma drop_duplicates_last_keys:
  "dedup_key ` set (drop_duplicates_last rs) = dedup_key ` set rs"
  by (induction rs) auto

lemma drop_duplicates_last_distinct: "distinct (map dedup_key (drop_duplicates_last rs))"
proof (induction rs)
  case Nil
  show ?case by simp
next
  case (Cons r rs)
  have "dedup_key r \<notin> dedup_key ` set rs \<Longrightarrow> dedup_key r \<notin> dedup_key ` set (drop_duplicates_last rs)"
    by (simp add: drop_duplicates_last_keys)
  with Cons show ?case by auto
qed

lemma drop_duplicates_last_is_last:
  "r \<in> set (drop_duplicates_last rs) \<Longrightarrow> r = last (filter (\<lambda>x. dedup_key x = dedup_key r) rs)"
proof (induction rs)
  case Nil
  then show ?case by simp
next
  case (Cons a rs)
  show ?case
  proof (cases "dedup_key a \<in> set (map dedup_key rs)")
    case True
    with Cons.prems have mem: "r \<in> set (drop_duplicates_last rs)" by simp
    then have "r \<in> set rs" using drop_duplicates_last_subset by blast
    then have ne: "filter (\<lambda>x. dedup_key x = dedup_key r) rs \<noteq> []"
      by (auto simp: filter_empty_conv)
    from Cons.IH [OF mem] ne show ?thesis by simp
  next
    case False
    then have nokey: "\<forall>x \<in> set rs. dedup_key x \<noteq> dedup_key a" by (auto simp: image_iff)
    from False Cons.prems consider "r = a" | "r \<in> set (drop_duplicates_last rs)" by auto
    then show ?thesis
    proof cases
      case 1
      from nokey have "filter (\<lambda>x. dedup_key x = dedup_key a) rs = []"
        by (auto simp: filter_empty_conv)
      with 1 show ?thesis by simp
    next
      case 2
      then have "r \<in> set rs" using drop_duplicates_last_subset by blast
      with nokey have "dedup_key a \<noteq> dedup_key r" by auto
      with Cons.IH [OF 2] show ?thesis by simp
    qed
  qed
qed

lemma concat_nonempty: "concat (filter (\<lambda>df. df \<noteq> []) dfs) = concat dfs"
  by (induction dfs) auto

lemma consolidate_eq: "consolidate dfs = sort_values (drop_duplicates_last (concat dfs))"
proof (cases "filter (\<lambda>df. df \<noteq> []) dfs = []")
  case True
  then have c: "concat dfs = []" using concat_nonempty [of dfs] by simp
  show ?thesis unfolding consolidate_def Let_def sort_values_def c using True by simp
next
  case False
  then show ?thesis by (simp add: consolidate_def concat_nonempty)
qed

lemma set_consolidate: "set (consolidate dfs) = set (drop_duplicates_last (concat dfs))"
  by (simp add: consolidate_eq sort_values_def)

lemma distinct_keys_consolidate: "distinct (map dedup_key (consolidate dfs))"
proof -
  have "mset (map dedup_key (consolidate dfs)) = mset (map dedup_key (drop_duplicates_last (concat dfs)))"
    by (simp add: consolidate_eq sort_values_def)
  then show ?thesis
    using drop_duplicates_last_distinct mset_eq_imp_distinct_iff by blast
qed

lemma last_filter_concat_batch:
  assumes "r \<in> set b" and "\<forall>p \<in> set post. \<forall>x \<in> set p. dedup_key x \<noteq> dedup_key r"
  shows "last (filter (\<lambda>x. dedup_key x = dedup_key r) (concat (pre @ b # post)))
         = last (filter (\<lambda>x. dedup_key x = dedup_key r) b)"
proof -
  have "filter (\<lambda>x. dedup_key x = dedup_key r) (concat post) = []"
    using assms(2) by (auto simp: filter_empty_conv)
  moreover have "filter (\<lambda>x. dedup_key x = dedup_key r) b \<noteq> []"
    using assms(1) by (auto simp: filter_empty_conv)
  ultimately show ?thesis by simp
qed

lemma consolidate_reports_eq:
  "consolidate_reports env start_date end_date
   = consolidate (map (\<lambda>file_info. download_and_parse_csv env (key file_info))
                      (list_csv_files env start_date end_date))"
proof (cases "list_csv_files env start_date end_date = []")
  case True
  then show ?thesis unfolding consolidate_reports_def Let_def by (simp add: consolidate_eq sort_values_def)
next
  case False
  then show ?thesis unfolding consolidate_reports_def Let_def by simp
qed

text \<open>
  Claim C1. For every sequence of frames, processed in order, the consolidated frame
  has at most one row for each key \<open>(UserId, Date)\<close>; its keys are exactly the keys of
  the input; every row that survives is the last row of its key in the order of
  processing; and for a key that occurs in a frame \<open>b\<close> and in no frame processed after
  \<open>b\<close>, the only row of that key in the result is the last such row of \<open>b\<close>. The order of
  processing decides, not the report date. \<open>consolidate_reports\<close> returns the
  consolidation of the frames of the catalogued files, in the order of the catalogue.
\<close>

theorem consolidate_last_write_wins:
  "consolidate_reports env start_date end_date
   = consolidate (map (\<lambda>file_info. download_and_parse_csv env (key file_info))
                      (list_csv_files env start_date end_date))
   \<and> distinct (map dedup_key (consolidate dfs))
   \<and> dedup_key ` set (consolidate dfs) = dedup_key ` set (concat dfs)
   \<and> (\<forall>r \<in> set (consolidate dfs).
         r = last (filter (\<lambda>x. dedup_key x = dedup_key r) (concat dfs)))
   \<and> (\<forall>pre b post r. dfs = pre @ b # post \<and> r \<in> set b
         \<and> (\<forall>p \<in> set post. \<forall>x \<in> set p. dedup_key x \<noteq> dedup_key r)
       \<longrightarrow> (\<exists>w \<in> set b. w = last (filter (\<lambda>x. dedup_key x = dedup_key r) b)
             \<and> w \<in> set (consolidate dfs)
             \<and> (\<forall>x \<in> set (consolidate dfs). dedup_key x = dedup_key r \<longrightarrow> x = w)))"
proof (intro conjI allI impI ballI)
  show "consolidate_reports env start_date end_date
   = consolidate (map (\<lambda>file_info. download_and_parse_csv env (key file_info))
                      (list_csv_files env start_date end_date))"
    by (rule consolidate_reports_eq)
  show "distinct (map dedup_key (consolidate dfs))" by (rule distinct_keys_consolidate)
  show "dedup_key ` set (consolidate dfs) = dedup_key ` set (concat dfs)"
    by (simp only: set_consolidate drop_duplicates_last_keys)
next
  fix r assume "r \<in> set (consolidate dfs)"
  then show "r = last (filter (\<lambda>x. dedup_key x = dedup_key r) (concat dfs))"
    by (simp only: set_consolidate drop_duplicates_last_is_last)
next
  fix pre b post r
  assume h: "dfs = pre @ b # post \<and> r \<in> set b
         \<and> (\<forall>p \<in> set post. \<forall>x \<in> set p. dedup_key x \<noteq> dedup_key r)"
  let ?k = "dedup_key r"
  let ?w = "last (filter (\<lambda>x. dedup_key x = ?k) b)"
  from h have ne: "filter (\<lambda>x. dedup_key x = ?k) b \<noteq> []" by (auto simp: filter_empty_conv)
  then have "?w \<in> set (filter (\<lambda>x. dedup_key x = ?k) b)" by (rule last_in_set)
  then have wb: "?w \<in> set b" and wk: "dedup_key ?w = ?k" by auto
  have eq: "last (filter (\<lambda>x. dedup_key x = ?k) (concat dfs)) = ?w"
    using h last_filter_concat_batch [of r b post pre] by simp
  have "?k \<in> dedup_key ` set (consolidate dfs)"
    using h by (simp only: set_consolidate drop_duplicates_last_keys) auto
  then obtain y where y: "y \<in> set (consolidate dfs)" "dedup_key y = ?k" by auto
  then have "y = ?w"
    using drop_duplicates_last_is_last [of y "concat dfs"] eq by (simp add: set_consolidate)
  with y have win: "?w \<in> set (consolidate dfs)" by simp
  have uniq: "\<forall>x \<in> set (consolidate dfs). dedup_key x = ?k \<longrightarrow> x = ?w"
  proof (intro ballI impI)
    fix x assume "x \<in> set (consolidate dfs)" and "dedup_key x = ?k"
    then show "x = ?w"
      using drop_duplicates_last_is_last [of x "concat dfs"] eq by (simp add: set_consolidate)
  qed
  from wb win uniq
  show "\<exists>w \<in> set b. w = ?w \<and> w \<in> set (consolidate dfs)
             \<and> (\<forall>x \<in> set (consolidate dfs). dedup_key x = ?k \<longrightarrow> x = w)"
    by blast
qed

lemma sorted_consolidate: "sorted (map sort_col (consolidate dfs))"
  by (simp add: consolidate_eq sort_values_def)

text \<open>
  Claim C2. Every frame that \<open>consolidate_reports\<close> returns is sorted in
  non-decreasing order of the pair \<open>(ReportDate, UserId)\<close>, compared
  lexicographically; so is the consolidation of any list of frames.
\<close>

theorem consolidate_sorted:
  "sorted (map sort_col (consolidate_reports env start_date end_date))
   \<and> sorted (map sort_col (consolidate dfs))"
  using sorted_consolidate [of dfs]
    sorted_consolidate [of "map (\<lambda>file_info. download_and_parse_csv env (key file_info))
                               (list_csv_files env start_date end_date)"]
  by (simp only: consolidate_reports_eq simp_thms)

subsection \<open>Date extraction\<close>

lemma match_here_drop: "match_here (drop i f) = Some tok \<longleftrightarrow> token_at f i tok"
proof (cases "i < length f")
  case True
  then have d: "drop i f = f ! i # drop (Suc i) f" by (simp add: Cons_nth_drop_Suc)
  from True show ?thesis
    unfolding d match_here_def token_at_def by (auto simp: add.commute)
next
  case False
  then show ?thesis by (simp add: match_here_def token_at_def)
qed

lemma re_search_None: "re_search f = None \<longleftrightarrow> (\<forall>i. match_here (drop i f) = None)"
proof (induction f)
  case Nil
  show ?case by (simp add: match_here_def)
next
  case (Cons c cs)
  show ?case
  proof
    assume a: "re_search (c # cs) = None"
    then have h: "match_here (c # cs) = None" and t: "re_search cs = None"
      by (auto split: option.splits)
    show "\<forall>i. match_here (drop i (c # cs)) = None"
    proof
      fix i show "match_here (drop i (c # cs)) = None"
        using h t Cons.IH by (cases i) auto
    qed
  next
    assume a: "\<forall>i. match_here (drop i (c # cs)) = None"
    then have h: "match_here (c # cs) = None" by (metis drop0)
    have "\<forall>i. match_here (drop i cs) = None"
    proof
      fix i from a have "match_here (drop (Suc i) (c # cs)) = None" by blast
      then show "match_here (drop i cs) = None" by simp
    qed
    with Cons.IH h show "re_search (c # cs) = None" by simp
  qed
qed

lemma re_search_Some:
  "re_search f = Some tok \<longleftrightarrow>
     (\<exists>i. match_here (drop i f) = Some tok \<and> (\<forall>j<i. match_here (drop j f) = None))"
proof (induction f)
  case Nil
  show ?case by (simp add: match_here_def)
next
  case (Cons c cs)
  show ?case
  proof (cases "match_here (c # cs)")
    case None
    have "(\<exists>i. match_here (drop i (c # cs)) = Some tok \<and> (\<forall>j<i. match_here (drop j (c # cs)) = None))
          \<longleftrightarrow> (\<exists>i. match_here (drop i cs) = Some tok \<and> (\<forall>j<i. match_here (drop j cs) = None))"
      (is "?L \<longleftrightarrow> ?R")
    proof
      assume ?L
      then obtain i where i: "match_here (drop i (c # cs)) = Some tok"
        and m: "\<forall>j<i. match_here (drop j (c # cs)) = None" by blast
      from i None obtain k where k: "i = Suc k" by (cases i) auto
      have "\<forall>j<k. match_here (drop j cs) = None"
      proof (intro allI impI)
        fix j assume "j < k"
        then have "Suc j < i" using k by simp
        with m have "match_here (drop (Suc j) (c # cs)) = None" by blast
        then show "match_here (drop j cs) = None" by simp
      qed
      with i k show ?R by auto
    next
      assume ?R
      then obtain i where i: "match_here (drop i cs) = Some tok"
        and m: "\<forall>j<i. match_here (drop j cs) = None" by blast
      have "\<forall>j<Suc i. match_here (drop j (c # cs)) = None"
      proof (intro allI impI)
        fix j assume "j < Suc i"
        then show "match_here (drop j (c # cs)) = None"
          using None m by (cases j) auto
      qed
      moreover have "match_here (drop (Suc i) (c # cs)) = Some tok" using i by simp
      ultimately show ?L by blast
    qed
    with None Cons.IH show ?thesis by simp
  next
    case (Some t)
    have "(\<exists>i. match_here (drop i (c # cs)) = Some tok \<and> (\<forall>j<i. match_here (drop j (c # cs)) = None))
          \<longleftrightarrow> t = tok" (is "?L \<longleftrightarrow> _")
    proof
      assume ?L
      then obtain i where i: "match_here (drop i (c # cs)) = Some tok"
        and m: "\<forall>j<i. match_here (drop j (c # cs)) = None" by blast
      have "i = 0"
      proof (rule ccontr)
        assume "i \<noteq> 0"
        then have "0 < i" by simp
        with m have "match_here (drop 0 (c # cs)) = None" by blast
        with Some show False by simp
      qed
      with i Some show "t = tok" by simp
    next
      assume "t = tok"
      with Some have "match_here (drop 0 (c # cs)) = Some tok" by simp
      then show ?L by blast
    qed
    with Some show ?thesis by simp
  qed
qed

lemma match_here_None_iff: "match_here (drop i f) = None \<longleftrightarrow> (\<forall>t. \<not> token_at f i t)"
  using match_here_drop [of i f] by (cases "match_here (drop i f)") auto

lemma strptime_ymd_Inr:
  "strptime_ymd s = Inr dt \<Longrightarrow>
     \<exists>y m d. dt = midnight y m d \<and> 1 \<le> y \<and> 1 \<le> m \<and> m \<le> 12 \<and> 1 \<le> d \<and> d \<le> days_in_month y m"
  unfolding strptime_ymd_def Let_def by (auto split: if_splits)

text \<open>
  What \<open>re.search\<close> makes of a file name: without any underscore-delimited token of
  twelve digits the extraction raises \<open>ValueError\<close>; otherwise the result is what
  \<open>strptime\<close> makes of the first eight digits of the leftmost such token. Every date
  returned is a calendar date at midnight.
\<close>

lemma extract_date_first_match:
  "((\<forall>i tok. \<not> token_at f i tok) \<longrightarrow> extract_date_from_filename f = Inl ValueError)
   \<and> (\<forall>i tok. token_at f i tok \<and> (\<forall>j<i. \<forall>t. \<not> token_at f j t)
         \<longrightarrow> extract_date_from_filename f = strptime_ymd (take 8 tok))
   \<and> (\<forall>dt. extract_date_from_filename f = Inr dt
         \<longrightarrow> (\<exists>y m d. dt = midnight y m d \<and> 1 \<le> y \<and> 1 \<le> m \<and> m \<le> 12
                   \<and> 1 \<le> d \<and> d \<le> days_in_month y m))"
proof (intro conjI allI impI)
  assume "\<forall>i tok. \<not> token_at f i tok"
  then have "re_search f = None" by (simp add: re_search_None match_here_None_iff)
  then show "extract_date_from_filename f = Inl ValueError"
    by (simp add: extract_date_from_filename_def)
next
  fix i tok
  assume h: "token_at f i tok \<and> (\<forall>j<i. \<forall>t. \<not> token_at f j t)"
  then have "match_here (drop i f) = Some tok \<and> (\<forall>j<i. match_here (drop j f) = None)"
    by (simp add: match_here_drop match_here_None_iff)
  then have "re_search f = Some tok" using re_search_Some by blast
  then show "extract_date_from_filename f = strptime_ymd (take 8 tok)"
    by (simp add: extract_date_from_filename_def)
next
  fix dt
  assume "extract_date_from_filename f = Inr dt"
  then obtain tok where "strptime_ymd (take 8 tok) = Inr dt"
    by (auto simp: extract_date_from_filename_def split: option.splits)
  then show "\<exists>y m d. dt = midnight y m d \<and> 1 \<le> y \<and> 1 \<le> m \<and> m \<le> 12
                   \<and> 1 \<le> d \<and> d \<le> days_in_month y m"
    by (rule strptime_ymd_Inr)
qed

lemma extract_date_first_match_example:
  "extract_date_from_filename ''a_202510200000_r.csv'' = Inr (midnight 2025 10 20)"
proof -
  have t: "token_at ''a_202510200000_r.csv'' 1 ''202510200000''"
    by (simp add: token_at_def is_digit_def)
  have n: "\<forall>j<1. \<forall>t. \<not> token_at ''a_202510200000_r.csv'' j t"
    by (simp add: token_at_def)
  have "extract_date_from_filename ''a_202510200000_r.csv'' = strptime_ymd (take 8 ''202510200000'')"
    using extract_date_first_match [of "''a_202510200000_r.csv''"] t n by blast
  then show ?thesis
    by (simp add: strptime_ymd_def digit_val_def days_in_month_def is_leap_def is_digit_def)
qed

text \<open>
  Claim C4. The claim holds of what the source says it does and fails of what it does.
  This file name contains the underscore-delimited token \<open>202510200000\<close>, whose first
  eight digits are the calendar date 2025-10-20; it is the second-to-last part of the
  name, the one that the comment of \<open>extract_date_from_filename\<close> names and that
  \<open>date_str\<close> of \<open>merge_csv.py\<close> reads. The extraction raises \<open>ValueError\<close> all the
  same: \<open>re.search\<close> stops at the token to the left, which is not a date.
\<close>

theorem extract_date_second_token_fails:
  "token_at ''a_999999999999_202510200000_report.csv'' 14 ''202510200000''
   \<and> date_str ''a_999999999999_202510200000_report.csv'' = Inr ''20251020''
   \<and> strptime_ymd ''20251020'' = Inr (midnight 2025 10 20)
   \<and> extract_date_from_filename ''a_999999999999_202510200000_report.csv'' = Inl ValueError"
  by (simp add: token_at_def date_str_def extract_date_from_filename_def match_here_def
      is_digit_def strptime_ymd_def digit_val_def days_in_month_def is_leap_def)

subsection \<open>The catalogue and the ingestor\<close>







lemma consolidate_skip_empty:
  "consolidate (dfs1 @ [] # dfs2) = consolidate (dfs1 @ dfs2)"
  by (simp add: consolidate_eq)

text \<open>
  Claim C7. When the download raises, or the parse raises,
  \<open>download_and_parse_csv\<close> returns the empty frame; the consolidation of a list of
  files with such a file in it is the consolidation of the list without it. When the
  download, the parse and the date extraction succeed, the frame has the rows that were
  parsed and every row carries the date of the file name as its \<open>ReportDate\<close>.
\<close>

theorem download_and_parse_csv_tolerant:
  "(\<forall>e. get_object env k = Inl e \<longrightarrow> download_and_parse_csv env k = [])
   \<and> (\<forall>content e. get_object env k = Inr content \<and> read_csv env content = Inl e
         \<longrightarrow> download_and_parse_csv env k = [])
   \<and> (\<forall>content df file_date. get_object env k = Inr content \<and> read_csv env content = Inr df
          \<and> extract_date_from_filename (basename k) = Inr file_date
         \<longrightarrow> length (download_and_parse_csv env k) = length df
             \<and> (\<forall>r \<in> set (download_and_parse_csv env k). ReportDate r = strftime_ymd file_date))
   \<and> (download_and_parse_csv env k = [] \<longrightarrow>
        consolidate (map (download_and_parse_csv env) (ks1 @ k # ks2))
        = consolidate (map (download_and_parse_csv env) (ks1 @ ks2)))"
proof (intro conjI allI impI)
  fix e assume "get_object env k = Inl e"
  then show "download_and_parse_csv env k = []" by (simp add: download_and_parse_csv_def)
next
  fix content e assume "get_object env k = Inr content \<and> read_csv env content = Inl e"
  then show "download_and_parse_csv env k = []" by (simp add: download_and_parse_csv_def)
next
  fix content df file_date
  assume h: "get_object env k = Inr content \<and> read_csv env content = Inr df
          \<and> extract_date_from_filename (basename k) = Inr file_date"
  then have eq: "download_and_parse_csv env k = map (\<lambda>r. r\<lparr>ReportDate := strftime_ymd file_date\<rparr>) df"
    by (simp add: download_and_parse_csv_def)
  show "length (download_and_parse_csv env k) = length df" by (simp add: eq)
  show "\<forall>r \<in> set (download_and_parse_csv env k). ReportDate r = strftime_ymd file_date"
    by (auto simp: eq)
next
  assume "download_and_parse_csv env k = []"
  then show "consolidate (map (download_and_parse_csv env) (ks1 @ k # ks2))
        = consolidate (map (download_and_parse_csv env) (ks1 @ ks2))"
    by (simp add: consolidate_skip_empty)
qed

subsection \<open>The theorems at concrete inputs\<close>

lemmas eval_date = extract_date_from_filename_def match_here_def is_digit_def
  strptime_ymd_def digit_val_def days_in_month_def is_leap_def midnight_def

theorem consolidate_last_write_wins_witness:
  "scenario_B \<in> set (consolidate [[scenario_A], [scenario_B]])
   \<and> scenario_B \<noteq> scenario_A \<and> dedup_key scenario_B = dedup_key scenario_A"
proof -
  have h: "[[scenario_A], [scenario_B]] = [[scenario_A]] @ [scenario_B] # []
           \<and> scenario_B \<in> set [scenario_B]
           \<and> (\<forall>p \<in> set []. \<forall>x \<in> set p. dedup_key x \<noteq> dedup_key scenario_B)"
    by simp
  have "\<exists>w \<in> set [scenario_B].
          w = last (filter (\<lambda>x. dedup_key x = dedup_key scenario_B) [scenario_B])
          \<and> w \<in> set (consolidate [[scenario_A], [scenario_B]])
          \<and> (\<forall>x \<in> set (consolidate [[scenario_A], [scenario_B]]).
                dedup_key x = dedup_key scenario_B \<longrightarrow> x = w)"
    using consolidate_last_write_wins [where dfs = "[[scenario_A], [scenario_B]]" and env = "\<lparr>list_objects_v2 = Inr [], get_object = (\<lambda>k. Inl ClientError),
        read_csv = (\<lambda>c. Inl ClientError)\<rparr>" and start_date = None and end_date = None] h
    by blast
  then have "scenario_B \<in> set (consolidate [[scenario_A], [scenario_B]])" by simp
  then show ?thesis by (simp add: scenario_A_def scenario_B_def dedup_key_def)
qed

theorem consolidate_sorted_witness:
  "sorted (map sort_col (consolidate
       [[\<lparr>UserId = ''U2'', Date = ''2025-10-21'', ReportDate = ''2025-10-21'', metrics = []\<rparr>],
        [\<lparr>UserId = ''U1'', Date = ''2025-10-20'', ReportDate = ''2025-10-20'', metrics = []\<rparr>]]))
   \<and> map sort_col (consolidate
       [[\<lparr>UserId = ''U2'', Date = ''2025-10-21'', ReportDate = ''2025-10-21'', metrics = []\<rparr>],
        [\<lparr>UserId = ''U1'', Date = ''2025-10-20'', ReportDate = ''2025-10-20'', metrics = []\<rparr>]])
     = [(''2025-10-20'', ''U1''), (''2025-10-21'', ''U2'')]"
  using consolidate_sorted
    [where dfs = "[[\<lparr>UserId = ''U2'', Date = ''2025-10-21'', ReportDate = ''2025-10-21'', metrics = []\<rparr>],
        [\<lparr>UserId = ''U1'', Date = ''2025-10-20'', ReportDate = ''2025-10-20'', metrics = []\<rparr>]]" and env = "\<lparr>list_objects_v2 = Inr [], get_object = (\<lambda>k. Inl ClientError),
        read_csv = (\<lambda>c. Inl ClientError)\<rparr>" and start_date = None and end_date = None]
  by (simp add: consolidate_def sort_values_def sort_col_def dedup_key_def)


theorem download_and_parse_csv_tolerant_witness:
  "download_and_parse_csv
      \<lparr>list_objects_v2 = Inr [],
       get_object = (\<lambda>k. if k = ''p/a_202510200000_r.csv'' then Inr ''UserId,Date'' else Inl ClientError),
       read_csv = (\<lambda>c. Inr [\<lparr>UserId = ''U1'', Date = ''2025-10-20'', ReportDate = '''', metrics = []\<rparr>])\<rparr>
      ''p/gone_202510200000_r.csv'' = []
   \<and> map ReportDate (download_and_parse_csv
      \<lparr>list_objects_v2 = Inr [],
       get_object = (\<lambda>k. if k = ''p/a_202510200000_r.csv'' then Inr ''UserId,Date'' else Inl ClientError),
       read_csv = (\<lambda>c. Inr [\<lparr>UserId = ''U1'', Date = ''2025-10-20'', ReportDate = '''', metrics = []\<rparr>])\<rparr>
      ''p/a_202510200000_r.csv'') = [''2025-10-20'']"
proof -
  let ?env = "\<lparr>list_objects_v2 = Inr [],
       get_object = (\<lambda>k. if k = ''p/a_202510200000_r.csv'' then Inr ''UserId,Date'' else Inl ClientError),
       read_csv = (\<lambda>c. Inr [\<lparr>UserId = ''U1'', Date = ''2025-10-20'', ReportDate = '''', metrics = []\<rparr>])\<rparr>"
  have g: "get_object ?env ''p/gone_202510200000_r.csv'' = Inl ClientError" by simp
  have a: "download_and_parse_csv ?env ''p/gone_202510200000_r.csv'' = []"
    using download_and_parse_csv_tolerant [of ?env "''p/gone_202510200000_r.csv''"] g by blast
  have h: "get_object ?env ''p/a_202510200000_r.csv'' = Inr ''UserId,Date''
        \<and> read_csv ?env ''UserId,Date'' = Inr [\<lparr>UserId = ''U1'', Date = ''2025-10-20'', ReportDate = '''', metrics = []\<rparr>]
        \<and> extract_date_from_filename (basename ''p/a_202510200000_r.csv'') = Inr (midnight 2025 10 20)"
    by (simp add: basename_def eval_date)
  have "length (download_and_parse_csv ?env ''p/a_202510200000_r.csv'') = length [\<lparr>UserId = ''U1'', Date = ''2025-10-20'', ReportDate = '''', metrics = []\<rparr>]
       \<and> (\<forall>r \<in> set (download_and_parse_csv ?env ''p/a_202510200000_r.csv''). ReportDate r = strftime_ymd (midnight 2025 10 20))"
    using download_and_parse_csv_tolerant [of ?env "''p/a_202510200000_r.csv''"] h by blast
  then have "map ReportDate (download_and_parse_csv ?env ''p/a_202510200000_r.csv'') = [strftime_ymd (midnight 2025 10 20)]"
    by (cases "download_and_parse_csv ?env ''p/a_202510200000_r.csv''") auto
  moreover have "strftime_ymd (midnight 2025 10 20) = ''2025-10-20''"
    by (simp add: strftime_ymd_def midnight_def pad4_def pad2_def digit_char_def)
  ultimately show ?thesis using a by simp
qed

section \<open>Properties of the identity cache\<close>

lemma get_user_info_miss_fallback:
  assumes "check_cache (time_check w) (user_cache m) user_id = Miss"
    and "store_of m = None \<or> (\<exists>sid e. store_of m = Some sid \<and> describe_user w sid user_id = Inl e)"
  shows "fst (get_user_info w m user_id) = Inr (fallback_record user_id (time_stamp w))"
    and "user_cache (snd (get_user_info w m user_id)) = user_cache m"
  using assms by (auto simp: get_user_info_def)

text \<open>
  Claim C5. When the cache has no fresh entry for \<open>user_id\<close> and the lookup in the
  directory fails (no client or no store id, or \<open>describe_user\<close> raises, as it does
  for a user that is not found), \<open>get_user_info\<close> returns a record with
  \<open>source = fallback\<close> whose \<open>username\<close> and \<open>display_name\<close> are \<open>User-\<close> followed by
  the first eight characters of \<open>user_id\<close>; the cache is the same after the call, and a
  \<open>user_id\<close> without an entry has none afterwards.
\<close>

theorem get_user_info_fallback:
  "check_cache (time_check w) (user_cache m) user_id = Miss
   \<and> (store_of m = None
      \<or> (\<exists>sid e. store_of m = Some sid \<and> describe_user w sid user_id = Inl e))
   \<longrightarrow> (\<exists>info. fst (get_user_info w m user_id) = Inr info
          \<and> info ''source'' = Some (JStr ''fallback'')
          \<and> info ''username'' = Some (JStr (''User-'' @ take 8 user_id))
          \<and> info ''display_name'' = Some (JStr (''User-'' @ take 8 user_id)))
       \<and> user_cache (snd (get_user_info w m user_id)) = user_cache m
       \<and> (user_cache m user_id = None
          \<longrightarrow> user_cache (snd (get_user_info w m user_id)) user_id = None)"
proof (intro impI)
  assume h: "check_cache (time_check w) (user_cache m) user_id = Miss
   \<and> (store_of m = None
      \<or> (\<exists>sid e. store_of m = Some sid \<and> describe_user w sid user_id = Inl e))"
  then have r: "fst (get_user_info w m user_id) = Inr (fallback_record user_id (time_stamp w))"
    and c: "user_cache (snd (get_user_info w m user_id)) = user_cache m"
    using get_user_info_miss_fallback by blast+
  have "fallback_record user_id (time_stamp w) ''source'' = Some (JStr ''fallback'')"
    and "fallback_record user_id (time_stamp w) ''username'' = Some (JStr (''User-'' @ take 8 user_id))"
    and "fallback_record user_id (time_stamp w) ''display_name'' = Some (JStr (''User-'' @ take 8 user_id))"
    by (simp_all add: fallback_record_def)
  with r c show "(\<exists>info. fst (get_user_info w m user_id) = Inr info
          \<and> info ''source'' = Some (JStr ''fallback'')
          \<and> info ''username'' = Some (JStr (''User-'' @ take 8 user_id))
          \<and> info ''display_name'' = Some (JStr (''User-'' @ take 8 user_id)))
       \<and> user_cache (snd (get_user_info w m user_id)) = user_cache m
       \<and> (user_cache m user_id = None
          \<longrightarrow> user_cache (snd (get_user_info w m user_id)) user_id = None)"
    by simp
qed

lemma check_cache_fresh:
  "user_cache m user_id = Some (JDict cached_info) \<Longrightarrow> cached_info ''cached_at'' = Some (JNum t)
   \<Longrightarrow> check_cache now (user_cache m) user_id = (if now - t < 86400 then Hit cached_info else Miss)"
  by (simp add: check_cache_def)

lemma get_user_info_resolved:
  assumes "check_cache (time_check w) (user_cache m) user_id = Miss"
    and "store_of m = Some sid" and "describe_user w sid user_id = Inr response"
  shows "get_user_info w m user_id =
           (Inr (directory_record user_id response (time_stamp w)),
            m\<lparr>user_cache := (user_cache m)(user_id \<mapsto>
                  JDict (directory_record user_id response (time_stamp w))),
              directory_calls := directory_calls m + 1\<rparr>)"
  using assms by (simp add: get_user_info_def)

lemma directory_record_cached_at:
  "directory_record user_id response now ''cached_at'' = Some (JNum now)"
  by (simp add: directory_record_def)

text \<open>
  Claim C6. An entry younger than 24 hours (\<open>now - cached_at < 86400\<close>) is returned
  as it is, and the mapper is unchanged: no call of the directory. Hence, when a first
  call resolves \<open>user_id\<close> in the directory and a second call comes less than 86400
  seconds after the record was stamped, the second call returns the same record and the
  two calls together make exactly one call of the directory. A call that finds an entry
  of 86400 seconds or more makes a new call of the directory.
\<close>

theorem get_user_info_cache_ttl:
  "(\<forall>cached_info t. user_cache m user_id = Some (JDict cached_info)
        \<and> cached_info ''cached_at'' = Some (JNum t) \<and> time_check w - t < 86400
      \<longrightarrow> get_user_info w m user_id = (Inr cached_info, m))
   \<and> (\<forall>sid response w2.
        check_cache (time_check w) (user_cache m) user_id = Miss
        \<and> store_of m = Some sid \<and> describe_user w sid user_id = Inr response
        \<and> time_check w2 - time_stamp w < 86400
      \<longrightarrow> fst (get_user_info w2 (snd (get_user_info w m user_id)) user_id)
            = fst (get_user_info w m user_id)
          \<and> directory_calls (snd (get_user_info w m user_id)) = directory_calls m + 1
          \<and> directory_calls (snd (get_user_info w2 (snd (get_user_info w m user_id)) user_id))
            = directory_calls m + 1)
   \<and> (\<forall>cached_info t sid. user_cache m user_id = Some (JDict cached_info)
        \<and> cached_info ''cached_at'' = Some (JNum t) \<and> \<not> time_check w - t < 86400
        \<and> store_of m = Some sid
      \<longrightarrow> directory_calls (snd (get_user_info w m user_id)) = directory_calls m + 1)"
proof (intro conjI allI impI)
  fix cached_info t
  assume "user_cache m user_id = Some (JDict cached_info)
        \<and> cached_info ''cached_at'' = Some (JNum t) \<and> time_check w - t < 86400"
  then show "get_user_info w m user_id = (Inr cached_info, m)"
    by (simp add: get_user_info_def check_cache_fresh)
next
  fix sid response and w2 :: world
  assume h: "check_cache (time_check w) (user_cache m) user_id = Miss
        \<and> store_of m = Some sid \<and> describe_user w sid user_id = Inr response
        \<and> time_check w2 - time_stamp w < 86400"
  let ?info = "directory_record user_id response (time_stamp w)"
  let ?m1 = "m\<lparr>user_cache := (user_cache m)(user_id \<mapsto> JDict ?info),
               directory_calls := directory_calls m + 1\<rparr>"
  from h have g1: "get_user_info w m user_id = (Inr ?info, ?m1)"
    by (simp add: get_user_info_resolved)
  have "user_cache ?m1 user_id = Some (JDict ?info)" by simp
  then have "check_cache (time_check w2) (user_cache ?m1) user_id = Hit ?info"
    using h check_cache_fresh [of ?m1 user_id ?info "time_stamp w" "time_check w2"]
      directory_record_cached_at [of user_id response "time_stamp w"]
    by simp
  then have g2: "get_user_info w2 ?m1 user_id = (Inr ?info, ?m1)"
    by (simp add: get_user_info_def)
  show "fst (get_user_info w2 (snd (get_user_info w m user_id)) user_id)
            = fst (get_user_info w m user_id)"
    by (simp only: g1 g2 fst_conv snd_conv)
  show "directory_calls (snd (get_user_info w m user_id)) = directory_calls m + 1"
    by (simp add: g1)
  show "directory_calls (snd (get_user_info w2 (snd (get_user_info w m user_id)) user_id))
            = directory_calls m + 1"
    by (simp only: g1 g2 snd_conv) simp
next
  fix cached_info t sid
  assume h: "user_cache m user_id = Some (JDict cached_info)
        \<and> cached_info ''cached_at'' = Some (JNum t) \<and> \<not> time_check w - t < 86400
        \<and> store_of m = Some sid"
  then have "check_cache (time_check w) (user_cache m) user_id = Miss"
    by (simp add: check_cache_fresh)
  with h show "directory_calls (snd (get_user_info w m user_id)) = directory_calls m + 1"
    by (cases "describe_user w sid user_id") (simp_all add: get_user_info_def)
qed

subsection \<open>Growth of the cache and totality of the lookup\<close>

lemma get_user_info_dom:
  "dom (user_cache m) \<subseteq> dom (user_cache (snd (get_user_info w m user_id)))"
  by (auto simp: get_user_info_def split: cache_check.splits option.splits sum.splits)

lemma bulk_loop_dom:
  "dom (user_cache m) \<subseteq> dom (user_cache (snd (bulk_loop ws i m user_ids results)))"
proof (induction user_ids arbitrary: i m results)
  case Nil
  show ?case by simp
next
  case (Cons user_id rest)
  obtain r m' where g: "get_user_info (ws i) m user_id = (r, m')" by (cases "get_user_info (ws i) m user_id")
  have sub: "dom (user_cache m) \<subseteq> dom (user_cache m')"
    using get_user_info_dom [of m "ws i" user_id] g by simp
  show ?case
  proof (cases r)
    case (Inl e)
    with g sub show ?thesis by simp
  next
    case (Inr info)
    with g have "bulk_loop ws i m (user_id # rest) results
                 = bulk_loop ws (Suc i) m' rest (results(user_id \<mapsto> info))" by simp
    moreover note Cons.IH [of m' "Suc i" "results(user_id \<mapsto> info)"]
    ultimately show ?thesis using sub by (simp only: subset_trans)
  qed
qed

lemma search_user_by_username_dom:
  "dom (user_cache m) \<subseteq> dom (user_cache (snd (search_user_by_username sw m username)))"
proof (cases "store_of m")
  case None
  then show ?thesis by (simp add: search_user_by_username_def)
next
  case (Some sid)
  show ?thesis
  proof (cases "list_users_by_name sw sid username")
    case (Inl e)
    with Some show ?thesis by (simp add: search_user_by_username_def)
  next
    case (Inr found)
    show ?thesis
    proof (cases found)
      case Nil
      with Some Inr show ?thesis by (simp add: search_user_by_username_def)
    next
      case (Cons user others)
      let ?m1 = "m\<lparr>directory_calls := directory_calls m + 1\<rparr>"
      obtain r m' where g: "get_user_info (lookup_world sw) ?m1 (DirUserId user) = (r, m')"
        by (cases "get_user_info (lookup_world sw) ?m1 (DirUserId user)")
      have "dom (user_cache ?m1) \<subseteq> dom (user_cache m')"
        using get_user_info_dom [of ?m1 "lookup_world sw" "DirUserId user"] g by simp
      then have sub: "dom (user_cache m) \<subseteq> dom (user_cache m')" by simp
      from Some Inr Cons g have "snd (search_user_by_username sw m username) = m'"
        by (cases r) (simp_all add: search_user_by_username_def)
      with sub show ?thesis by simp
    qed
  qed
qed

lemma store_users_dom: "dom cache \<subseteq> dom (snd (store_users clock us users cache))"
proof (induction us arbitrary: users cache)
  case Nil
  show ?case by simp
next
  case (Cons user rest)
  let ?r = "directory_record (DirUserId user) user (clock (length users))"
  have "dom cache \<subseteq> dom (cache(DirUserId user \<mapsto> JDict ?r))" by auto
  also have "\<dots> \<subseteq> dom (snd (store_users clock rest (users @ [?r]) (cache(DirUserId user \<mapsto> JDict ?r))))"
    by (rule Cons.IH)
  finally show ?case by simp
qed

lemma list_users_loop_dom:
  assumes "list_users_loop l sid next_token users m = Some r"
  shows "dom (user_cache m) \<subseteq> dom (user_cache (snd (snd r)))"
proof (rule list_users_loop.raw_induct
    [where P = "\<lambda>l sid next_token users m r. dom (user_cache m) \<subseteq> dom (user_cache (snd (snd r)))",
     OF _ assms], goal_cases)
  case (1 loop l sid next_token users m r)
  show ?case
  proof (cases "list_users l sid next_token")
    case (Inl e)
    with 1(2) have "r = (Some e, users, m\<lparr>directory_calls := directory_calls m + 1\<rparr>)" by simp
    then show ?thesis by simp
  next
    case (Inr response)
    let ?cache = "snd (store_users (time_at l) (Users response) users (user_cache m))"
    let ?users = "fst (store_users (time_at l) (Users response) users (user_cache m))"
    let ?m1 = "m\<lparr>user_cache := ?cache, directory_calls := directory_calls m + 1\<rparr>"
    have sub: "dom (user_cache m) \<subseteq> dom ?cache" by (rule store_users_dom)
    show ?thesis
    proof (cases "NextToken response")
      case None
      with Inr 1(2) have "r = (None, ?users, ?m1)" by simp
      with sub show ?thesis by simp
    next
      case (Some tok)
      show ?thesis
      proof (cases "tok = []")
        case True
        with Inr Some 1(2) have "r = (None, ?users, ?m1)" by simp
        with sub show ?thesis by simp
      next
        case False
        with Inr Some 1(2) have "loop l sid (Some tok) ?users ?m1 = Some r" by simp
        then have "dom (user_cache ?m1) \<subseteq> dom (user_cache (snd (snd r)))" by (rule 1(1))
        with sub show ?thesis by simp
      qed
    qed
  qed
qed

lemma list_all_users_dom:
  assumes "list_all_users l m = Some (users, m')"
  shows "dom (user_cache m) \<subseteq> dom (user_cache m')"
proof (cases "store_of m")
  case None
  with assms show ?thesis by (simp add: list_all_users_def)
next
  case (Some sid)
  with assms obtain r where r: "list_users_loop l sid None [] m = Some r"
    by (cases "list_users_loop l sid None [] m") (simp_all add: list_all_users_def)
  obtain e us m1 where t: "r = (e, us, m1)" by (cases r)
  from Some assms r t have "m' = m1"
    by (cases e) (simp_all add: list_all_users_def)
  with list_users_loop_dom [OF r] t show ?thesis by simp
qed

text \<open>
  Claim C9. The cache grows monotonically: after \<open>get_user_info\<close>, after
  \<open>bulk_get_users\<close>, after \<open>search_user_by_username\<close>, and after every
  \<open>list_all_users\<close> that returns, each \<open>user_id\<close> that had an entry still has one.
  Entries are added or overwritten, never deleted.
\<close>

theorem user_cache_grows:
  "dom (user_cache m) \<subseteq> dom (user_cache (snd (get_user_info w m user_id)))
   \<and> dom (user_cache m) \<subseteq> dom (user_cache (snd (bulk_get_users ws m user_ids)))
   \<and> dom (user_cache m) \<subseteq> dom (user_cache (snd (search_user_by_username sw m username)))
   \<and> (\<forall>users m'. list_all_users l m = Some (users, m')
        \<longrightarrow> dom (user_cache m) \<subseteq> dom (user_cache m'))"
proof (intro conjI allI impI)
  show "dom (user_cache m) \<subseteq> dom (user_cache (snd (get_user_info w m user_id)))"
    by (rule get_user_info_dom)
  show "dom (user_cache m) \<subseteq> dom (user_cache (snd (bulk_get_users ws m user_ids)))"
    unfolding bulk_get_users_def by (rule bulk_loop_dom)
  show "dom (user_cache m) \<subseteq> dom (user_cache (snd (search_user_by_username sw m username)))"
    by (rule search_user_by_username_dom)
next
  fix users m'
  assume "list_all_users l m = Some (users, m')"
  then show "dom (user_cache m) \<subseteq> dom (user_cache m')"
    by (rule list_all_users_dom)
qed

lemma well_formed_check:
  assumes "well_formed_cache cache"
  shows "check_cache now cache user_id = Miss
         \<or> (\<exists>info. check_cache now cache user_id = Hit info \<and> well_formed_record info)"
proof (cases "cache user_id")
  case None
  then show ?thesis by (simp add: check_cache_def)
next
  case (Some entry)
  from assms have wf: "case cache user_id of None \<Rightarrow> True | Some JOther \<Rightarrow> False
                      | Some (JDict info) \<Rightarrow> well_formed_record info"
    unfolding well_formed_cache_def by blast
  show ?thesis
  proof (cases entry)
    case JOther
    with Some wf show ?thesis by simp
  next
    case (JDict info)
    with Some wf have w: "well_formed_record info" by simp
    then obtain t where "info ''cached_at'' = Some (JNum t)"
      unfolding well_formed_record_def by (auto split: option.splits jval.splits)
    with Some JDict w show ?thesis by (simp add: check_cache_def)
  qed
qed

lemma well_formed_directory_record: "well_formed_record (directory_record user_id response now)"
  by (simp add: well_formed_record_def directory_record_def record_keys_def)

lemma well_formed_fallback_record: "well_formed_record (fallback_record user_id now)"
  by (simp add: well_formed_record_def fallback_record_def record_keys_def)

lemma get_user_info_well_formed:
  assumes "well_formed_cache (user_cache m)"
  shows "\<exists>info. fst (get_user_info w m user_id) = Inr info \<and> well_formed_record info"
proof -
  from well_formed_check [OF assms, of "time_check w" user_id]
  consider "check_cache (time_check w) (user_cache m) user_id = Miss"
    | info where "check_cache (time_check w) (user_cache m) user_id = Hit info" "well_formed_record info"
    by blast
  then show ?thesis
  proof cases
    case 1
    show ?thesis
    proof (cases "store_of m")
      case None
      with 1 show ?thesis by (simp add: get_user_info_def well_formed_fallback_record)
    next
      case (Some sid)
      with 1 show ?thesis
        by (cases "describe_user w sid user_id")
           (simp_all add: get_user_info_def well_formed_fallback_record well_formed_directory_record)
    qed
  next
    case 2
    then show ?thesis by (simp add: get_user_info_def)
  qed
qed

text \<open>
  Claim C10. When every entry of the cache is a well-formed record, \<open>get_user_info\<close>
  raises nothing, whatever the directory answers and whether or not a client and a
  store id are there: it returns a record that has all of \<open>user_id\<close>, \<open>username\<close>,
  \<open>display_name\<close>, \<open>email\<close>, \<open>first_name\<close>, \<open>last_name\<close>, \<open>cached_at\<close> and
  \<open>source\<close>, and whose \<open>source\<close> is \<open>iam_identity_center\<close> or \<open>fallback\<close>, never
  \<open>directory\<close>.
\<close>

theorem get_user_info_total:
  "well_formed_cache (user_cache m) \<longrightarrow>
     (\<exists>info. fst (get_user_info w m user_id) = Inr info
        \<and> (\<forall>k \<in> set record_keys. info k \<noteq> None)
        \<and> (info ''source'' = Some (JStr ''iam_identity_center'')
           \<or> info ''source'' = Some (JStr ''fallback''))
        \<and> info ''source'' \<noteq> Some (JStr ''directory''))"
proof
  assume "well_formed_cache (user_cache m)"
  then obtain info where i: "fst (get_user_info w m user_id) = Inr info" and w: "well_formed_record info"
    using get_user_info_well_formed by blast
  from w have "\<forall>k \<in> set record_keys. info k \<noteq> None"
    and s: "info ''source'' = Some (JStr ''iam_identity_center'') \<or> info ''source'' = Some (JStr ''fallback'')"
    unfolding well_formed_record_def by (simp_all add: list_all_iff)
  moreover from s have "info ''source'' \<noteq> Some (JStr ''directory'')" by auto
  ultimately show "\<exists>info. fst (get_user_info w m user_id) = Inr info
        \<and> (\<forall>k \<in> set record_keys. info k \<noteq> None)
        \<and> (info ''source'' = Some (JStr ''iam_identity_center'')
           \<or> info ''source'' = Some (JStr ''fallback''))
        \<and> info ''source'' \<noteq> Some (JStr ''directory'')"
    using i by blast
qed

subsection \<open>The theorems of the identity cache at concrete inputs\<close>

lemmas eval_mapper = sample_mapper_def world_up_def world_down_def sample_user_def
  check_cache_def store_of_def get_user_info_def

theorem get_user_info_fallback_witness:
  "user_cache (snd (get_user_info (world_down 1000) sample_mapper ''1458e458-7041''))
     ''1458e458-7041'' = None
   \<and> fallback_record ''1458e458-7041'' 1000 ''username'' = Some (JStr ''User-1458e458'')"
proof -
  have h: "check_cache (time_check (world_down 1000)) (user_cache sample_mapper) ''1458e458-7041'' = Miss
     \<and> (store_of sample_mapper = None
        \<or> (\<exists>sid e. store_of sample_mapper = Some sid
              \<and> describe_user (world_down 1000) sid ''1458e458-7041'' = Inl e))"
    by (simp add: eval_mapper)
  have u: "user_cache sample_mapper ''1458e458-7041'' = None" by (simp add: sample_mapper_def)
  have "user_cache (snd (get_user_info (world_down 1000) sample_mapper ''1458e458-7041''))
          ''1458e458-7041'' = None"
    using get_user_info_fallback [of "world_down 1000" sample_mapper "''1458e458-7041''"] h u
    by blast
  then show ?thesis by (simp add: fallback_record_def)
qed

theorem get_user_info_cache_ttl_witness:
  "directory_calls (snd (get_user_info (world_up 87000)
      (snd (get_user_info (world_up 1000) sample_mapper ''1458e458-7041'')) ''1458e458-7041'')) = 1
   \<and> directory_calls (snd (get_user_info (world_up 88000)
      (snd (get_user_info (world_up 1000) sample_mapper ''1458e458-7041'')) ''1458e458-7041'')) = 2"
proof -
  let ?m1 = "snd (get_user_info (world_up 1000) sample_mapper ''1458e458-7041'')"
  have h: "check_cache (time_check (world_up 1000)) (user_cache sample_mapper) ''1458e458-7041'' = Miss
        \<and> store_of sample_mapper = Some ''d-9067f33d3d''
        \<and> describe_user (world_up 1000) ''d-9067f33d3d'' ''1458e458-7041'' = Inr sample_user
        \<and> time_check (world_up 87000) - time_stamp (world_up 1000) < 86400"
    by (simp add: eval_mapper)
  have a: "directory_calls (snd (get_user_info (world_up 87000) ?m1 ''1458e458-7041''))
           = directory_calls sample_mapper + 1"
    using get_user_info_cache_ttl [of sample_mapper "''1458e458-7041''" "world_up 1000"] h
    by blast
  have m1: "?m1 = sample_mapper\<lparr>user_cache := (user_cache sample_mapper)(''1458e458-7041'' \<mapsto>
                  JDict (directory_record ''1458e458-7041'' sample_user 1000)),
              directory_calls := 1\<rparr>"
    by (simp add: eval_mapper)
  have k: "user_cache ?m1 ''1458e458-7041'' = Some (JDict (directory_record ''1458e458-7041'' sample_user 1000))
        \<and> directory_record ''1458e458-7041'' sample_user 1000 ''cached_at'' = Some (JNum 1000)
        \<and> \<not> time_check (world_up 88000) - 1000 < 86400
        \<and> store_of ?m1 = Some ''d-9067f33d3d''"
    unfolding m1 by (simp add: directory_record_def world_up_def store_of_def sample_mapper_def)
  have b: "directory_calls (snd (get_user_info (world_up 88000) ?m1 ''1458e458-7041''))
           = directory_calls ?m1 + 1"
    using get_user_info_cache_ttl [of ?m1 "''1458e458-7041''" "world_up 88000"] k
    by blast
  have "directory_calls ?m1 = 1" unfolding m1 by simp
  with a b show ?thesis by (simp add: sample_mapper_def)
qed

theorem user_cache_grows_witness:
  "\<exists>users m'. list_all_users sample_listing sample_mapper = Some (users, m')
     \<and> dom (user_cache sample_mapper) \<subseteq> dom (user_cache m')
     \<and> user_cache m' ''1458e458-7041'' \<noteq> None"
proof -
  let ?r = "directory_record ''1458e458-7041'' sample_user 5000"
  let ?m = "sample_mapper\<lparr>user_cache := (user_cache sample_mapper)(''1458e458-7041'' \<mapsto> JDict ?r),
              directory_calls := directory_calls sample_mapper + 1\<rparr>"
  have l: "list_users_loop sample_listing ''d-9067f33d3d'' None [] sample_mapper
           = Some (None, [?r], ?m)"
    by (subst list_users_loop.simps) (simp add: sample_listing_def sample_user_def)
  have e: "list_all_users sample_listing sample_mapper = Some ([?r], ?m)"
  proof -
    have "store_of sample_mapper = Some ''d-9067f33d3d''"
      by (simp add: store_of_def sample_mapper_def)
    then show ?thesis by (simp add: list_all_users_def l)
  qed
  then have "dom (user_cache sample_mapper) \<subseteq> dom (user_cache ?m)"
    using user_cache_grows [of sample_mapper _ _ _ _ _ _ sample_listing] by blast
  with e show ?thesis by simp
qed

theorem get_user_info_total_witness:
  "\<exists>info. fst (get_user_info (world_up 1000) sample_mapper ''1458e458-7041'') = Inr info
     \<and> info ''source'' = Some (JStr ''iam_identity_center'')
     \<and> info ''username'' = Some (JStr ''bedrock_user1'')"
proof -
  have wf: "well_formed_cache (user_cache sample_mapper)"
    by (simp add: well_formed_cache_def sample_mapper_def)
  then obtain info where i: "fst (get_user_info (world_up 1000) sample_mapper ''1458e458-7041'') = Inr info"
    using get_user_info_total [of sample_mapper "world_up 1000" "''1458e458-7041''"] by blast
  have "fst (get_user_info (world_up 1000) sample_mapper ''1458e458-7041'')
        = Inr (directory_record ''1458e458-7041'' sample_user 1000)"
    by (simp add: eval_mapper)
  then show ?thesis by (simp add: directory_record_def sample_user_def get_str_def)
qed

section \<open>Properties of the region aggregation\<close>

lemma region_loop_quiet_step:
  assumes "quiet env region"
  shows "\<exists>ms. region_loop env (region # rest) acc msgs
              = region_loop env rest
                  (if yields_data env region then acc @ [region_frame env region] else acc)
                  (msgs @ ms)"
proof -
  from assms obtain name where n: "map_of SUPPORTED_REGIONS region = Some name"
    unfolding quiet_def by auto
  show ?thesis
  proof (cases "run_region env region")
    case (RunRaised e)
    with assms show ?thesis by (simp add: quiet_def)
  next
    case (Completed rc tf)
    show ?thesis
    proof (cases "rc = 0")
      case False
      with n Completed have "region_loop env (region # rest) acc msgs
            = region_loop env rest acc (msgs @ [Write name, Warning name])" by simp
      moreover from False Completed have "\<not> yields_data env region"
        by (simp add: yields_data_def split: temp_file.splits)
      ultimately show ?thesis by auto
    next
      case True
      show ?thesis
      proof (cases tf)
        case Missing
        with n Completed True have "region_loop env (region # rest) acc msgs
            = region_loop env rest acc (msgs @ [Write name, Success name])" by simp
        moreover from Missing Completed have "\<not> yields_data env region"
          by (simp add: yields_data_def)
        ultimately show ?thesis by auto
      next
        case (Unreadable e)
        with assms Completed True show ?thesis by (simp add: quiet_def)
      next
        case (Readable df)
        show ?thesis
        proof (cases "df = []")
          case e: True
          with n Completed True Readable have "region_loop env (region # rest) acc msgs
              = region_loop env rest acc (msgs @ [Write name, Success name])" by simp
          moreover from e Readable Completed have "\<not> yields_data env region"
            by (simp add: yields_data_def)
          ultimately show ?thesis by auto
        next
          case ne: False
          with n Completed True Readable have "region_loop env (region # rest) acc msgs
              = region_loop env rest (acc @ [tag_rows region name df])
                  (msgs @ [Write name, Success name])" by simp
          moreover from ne True Readable Completed have "yields_data env region"
            by (simp add: yields_data_def)
          moreover from n Completed Readable have "region_frame env region = tag_rows region name df"
            by (simp add: region_frame_def)
          ultimately show ?thesis by auto
        qed
      qed
    qed
  qed
qed

lemma region_loop_quiet:
  "list_all (quiet env) regions \<Longrightarrow>
     \<exists>ms. region_loop env regions acc msgs = (Inr (acc @ region_frames env regions), msgs @ ms)"
proof (induction regions arbitrary: acc msgs)
  case Nil
  show ?case by (simp add: region_frames_def)
next
  case (Cons region rest)
  then have q: "quiet env region" and qs: "list_all (quiet env) rest" by simp_all
  let ?acc = "if yields_data env region then acc @ [region_frame env region] else acc"
  from region_loop_quiet_step [OF q, of rest acc msgs]
  obtain ms where s: "region_loop env (region # rest) acc msgs = region_loop env rest ?acc (msgs @ ms)"
    by blast
  from Cons.IH [OF qs, of ?acc "msgs @ ms"]
  obtain ms' where t: "region_loop env rest ?acc (msgs @ ms) = (Inr (?acc @ region_frames env rest), (msgs @ ms) @ ms')"
    by blast
  have f: "?acc @ region_frames env rest = acc @ region_frames env (region # rest)"
    by (simp add: region_frames_def)
  have "region_loop env (region # rest) acc msgs
        = (Inr (acc @ region_frames env (region # rest)), msgs @ (ms @ ms'))"
    using s t f by simp
  then show ?case by blast
qed

lemma region_loop_raises:
  "\<not> list_all (quiet env) regions \<Longrightarrow> \<exists>e ms. region_loop env regions acc msgs = (Inl e, ms)"
proof (induction regions arbitrary: acc msgs)
  case Nil
  then show ?case by simp
next
  case (Cons region rest)
  show ?case
  proof (cases "quiet env region")
    case True
    with Cons.prems have "\<not> list_all (quiet env) rest" by simp
    from region_loop_quiet_step [OF True, of rest acc msgs] Cons.IH [OF this]
    show ?thesis by metis
  next
    case False
    show ?thesis
    proof (cases "map_of SUPPORTED_REGIONS region")
      case None
      then show ?thesis by simp
    next
      case (Some name)
      with False show ?thesis
        by (cases "run_region env region")
           (auto simp: quiet_def split: temp_file.splits)
    qed
  qed
qed

lemma region_frames_empty:
  "region_frames env regions = [] \<longleftrightarrow> (\<forall>r \<in> set regions. \<not> yields_data env r)"
  by (simp add: region_frames_def filter_empty_conv)

lemma region_frames_tagged:
  assumes "list_all (quiet env) regions" and "x \<in> set (concat (region_frames env regions))"
  shows "\<exists>r \<in> set regions. yields_data env r \<and> Region x = r
           \<and> map_of SUPPORTED_REGIONS r = Some (RegionName x)"
proof -
  from assms(2) obtain r where r: "r \<in> set regions" "yields_data env r" "x \<in> set (region_frame env r)"
    by (auto simp: region_frames_def)
  from assms(1) r(1) have "quiet env r" by (simp add: list_all_iff)
  then obtain name where n: "map_of SUPPORTED_REGIONS r = Some name" unfolding quiet_def by auto
  from r(2) obtain rc df where c: "run_region env r = Completed rc (Readable df)"
    unfolding yields_data_def by (auto split: run_result.splits temp_file.splits)
  from n c have "region_frame env r = tag_rows r name df" by (simp add: region_frame_def)
  with r(3) have "Region x = r \<and> RegionName x = name" by (auto simp: tag_rows_def)
  with r n show ?thesis by auto
qed

lemma consolidate_region_data_quiet:
  assumes "list_all (quiet env) regions"
  shows "returned (consolidate_region_data env regions)
           \<longleftrightarrow> (\<exists>r \<in> set regions. yields_data env r)
               \<and> to_csv env (concat (region_frames env regions)) = None"
    and "returned (consolidate_region_data env regions)
           \<Longrightarrow> written (consolidate_region_data env regions) = Some (concat (region_frames env regions))"
proof -
  from region_loop_quiet [OF assms, of "[]" "[]"]
  obtain ms where l: "region_loop env regions [] [] = (Inr (region_frames env regions), ms)"
    by auto
  show "returned (consolidate_region_data env regions)
           \<longleftrightarrow> (\<exists>r \<in> set regions. yields_data env r)
               \<and> to_csv env (concat (region_frames env regions)) = None"
    using region_frames_empty [of env regions]
    by (cases "to_csv env (concat (region_frames env regions))")
       (auto simp: consolidate_region_data_def l)
  show "returned (consolidate_region_data env regions)
           \<Longrightarrow> written (consolidate_region_data env regions) = Some (concat (region_frames env regions))"
    by (cases "to_csv env (concat (region_frames env regions))")
       (auto simp: consolidate_region_data_def l split: if_splits)
qed

lemma consolidate_region_data_raises:
  assumes "\<not> list_all (quiet env) regions"
  shows "\<not> returned (consolidate_region_data env regions)"
proof -
  from region_loop_raises [OF assms, of "[]" "[]"]
  obtain e ms where "region_loop env regions [] [] = (Inl e, ms)" by blast
  then show ?thesis by (simp add: consolidate_region_data_def)
qed


text \<open>
  Claim C8, amended. The aggregation returns \<open>True\<close> exactly when nothing raises (every
  region is in the table, every call of the child process returns, every file read is
  readable, the artifact can be written) and some region yields data. So, when nothing
  raises, it fails if and only if every region yields no data, and a region without
  data does not prevent the success that another region's data brings. On success the
  artifact holds the frames of the regions that yield data, in order, and every row
  carries its region and the label of that region.
\<close>

theorem consolidate_region_data_outcome:
  "(returned (consolidate_region_data env regions)
      \<longleftrightarrow> list_all (quiet env) regions \<and> (\<exists>r \<in> set regions. yields_data env r)
          \<and> to_csv env (concat (region_frames env regions)) = None)
   \<and> (list_all (quiet env) regions \<and> to_csv env (concat (region_frames env regions)) = None
        \<longrightarrow> (\<not> returned (consolidate_region_data env regions)
               \<longleftrightarrow> (\<forall>r \<in> set regions. \<not> yields_data env r)))
   \<and> (returned (consolidate_region_data env regions)
        \<longrightarrow> written (consolidate_region_data env regions)
              = Some (concat (region_frames env regions))
            \<and> (\<forall>x \<in> set (concat (region_frames env regions)).
                  \<exists>r \<in> set regions. yields_data env r \<and> Region x = r
                    \<and> map_of SUPPORTED_REGIONS r = Some (RegionName x)))"
proof -
  have main: "returned (consolidate_region_data env regions)
      \<longleftrightarrow> list_all (quiet env) regions \<and> (\<exists>r \<in> set regions. yields_data env r)
          \<and> to_csv env (concat (region_frames env regions)) = None"
  proof (cases "list_all (quiet env) regions")
    case True
    then show ?thesis using consolidate_region_data_quiet(1) [of env regions] by simp
  next
    case False
    then show ?thesis using consolidate_region_data_raises [of env regions] by simp
  qed
  have tagged: "returned (consolidate_region_data env regions)
        \<longrightarrow> written (consolidate_region_data env regions)
              = Some (concat (region_frames env regions))
            \<and> (\<forall>x \<in> set (concat (region_frames env regions)).
                  \<exists>r \<in> set regions. yields_data env r \<and> Region x = r
                    \<and> map_of SUPPORTED_REGIONS r = Some (RegionName x))"
  proof
    assume r: "returned (consolidate_region_data env regions)"
    with main have q: "list_all (quiet env) regions" by blast
    from consolidate_region_data_quiet(2) [OF q r] region_frames_tagged [OF q]
    show "written (consolidate_region_data env regions)
              = Some (concat (region_frames env regions))
            \<and> (\<forall>x \<in> set (concat (region_frames env regions)).
                  \<exists>r \<in> set regions. yields_data env r \<and> Region x = r
                    \<and> map_of SUPPORTED_REGIONS r = Some (RegionName x))"
      by blast
  qed
  from main have second: "list_all (quiet env) regions \<and> to_csv env (concat (region_frames env regions)) = None
        \<longrightarrow> (\<not> returned (consolidate_region_data env regions)
               \<longleftrightarrow> (\<forall>r \<in> set regions. \<not> yields_data env r))"
    by blast
  from main second tagged show ?thesis by (intro conjI)
qed

text \<open>
  Claim C8 as stated fails: \<open>us-east-1\<close> yields data, the run for \<open>us-west-2\<close> runs into
  the timeout, and the aggregation of the two fails although not every region is
  without data.
\<close>

theorem consolidate_region_data_timeout_counterexample:
  "[''us-east-1'', ''us-west-2''] \<noteq> []
   \<and> yields_data env_timeout ''us-east-1''
   \<and> \<not> returned (consolidate_region_data env_timeout [''us-east-1'', ''us-west-2''])"
  by (simp add: yields_data_def env_timeout_def consolidate_region_data_def
      SUPPORTED_REGIONS_def tag_rows_def)

text \<open>
  The scenario of the specification: \<open>us-east-1\<close> has data and \<open>us-west-2\<close> has none
  (its child process ends with return code 0 and leaves no file). The aggregation
  succeeds and every row written carries \<open>us-east-1\<close>.
\<close>

theorem consolidate_region_data_outcome_witness:
  "\<not> yields_data env_partial ''us-west-2''
   \<and> returned (consolidate_region_data env_partial [''us-east-1'', ''us-west-2''])
   \<and> map Region (the (written (consolidate_region_data env_partial [''us-east-1'', ''us-west-2''])))
     = [''us-east-1'']
   \<and> map RegionName (the (written (consolidate_region_data env_partial [''us-east-1'', ''us-west-2''])))
     = [''US East (N. Virginia)'']"
proof -
  let ?regions = "[''us-east-1'', ''us-west-2'']"
  have n: "\<not> yields_data env_partial ''us-west-2''"
    by (simp add: yields_data_def env_partial_def)
  have q: "list_all (quiet env_partial) ?regions"
    by (simp add: quiet_def env_partial_def SUPPORTED_REGIONS_def)
  have y: "\<exists>r \<in> set ?regions. yields_data env_partial r"
    by (simp add: yields_data_def env_partial_def)
  have c: "to_csv env_partial (concat (region_frames env_partial ?regions)) = None"
    by (simp add: env_partial_def)
  note t = consolidate_region_data_outcome [of env_partial ?regions]
  from t q y c have r: "returned (consolidate_region_data env_partial ?regions)" by blast
  with t have "written (consolidate_region_data env_partial ?regions)
               = Some (concat (region_frames env_partial ?regions))" by blast
  moreover have "map Region (concat (region_frames env_partial ?regions)) = [''us-east-1'']"
    and "map RegionName (concat (region_frames env_partial ?regions)) = [''US East (N. Virginia)'']"
    by (simp_all add: region_frames_def region_frame_def yields_data_def env_partial_def
        SUPPORTED_REGIONS_def tag_rows_def)
  ultimately show ?thesis using n r by simp
qed

end
